theory Spec2Isabelle
  imports Complex_Main
begin

section \<open>Pivot calibration: a shallow embedding of \<^verbatim>\<open>algorithms/pivot.py\<close>\<close>

text \<open>
  Floating-point numbers are modelled as \<^typ>\<open>real\<close>, so rounding, infinities and NaN are
  outside the model; in particular \<open>1 / 0\<close> is \<open>0\<close> here and \<open>inf\<close> in numpy.
  The two library calls of the module are parameters of the model:
  \<^item> \<open>svd\<close> stands for \<^verbatim>\<open>np.linalg.svd(a, full_matrices=False)\<close> and returns the triple
    \<open>(u, s, vh)\<close>;
  \<^item> \<open>draws\<close> stands for the random generator behind \<^verbatim>\<open>random.sample\<close>: \<open>draws i\<close> is the
    list of indices drawn in iteration \<open>i\<close> of the RANSAC loop.
\<close>

subsection \<open>Exceptions\<close>

text \<open>One constructor for every place where the module, or a library call it makes, raises.\<close>

datatype error =
    NotNumpyArray
  | Not4Rows
  | Not4Columns
  | UnknownMethod string
  | RankLessThan6
  | IterationsLessThan1
  | NegativeErrorThreshold
  | ConsensusOutOfRange
  | NoModelFound
  | SampleLargerThanPopulation
  | TupleIndexOutOfRange
  | IndexOutOfBounds
  | CannotReshape
  | MatmulMismatch
  | ZeroDivision

datatype py_exception = TypeError | ValueError | IndexError | ZeroDivisionError

text \<open>The Python class of each exception; \<^verbatim>\<open>except ValueError\<close> looks at nothing else.\<close>

fun exception_class :: "error \<Rightarrow> py_exception" where
  "exception_class NotNumpyArray = TypeError"
| "exception_class Not4Rows = ValueError"
| "exception_class Not4Columns = ValueError"
| "exception_class (UnknownMethod m) = ValueError"
| "exception_class RankLessThan6 = ValueError"
| "exception_class IterationsLessThan1 = ValueError"
| "exception_class NegativeErrorThreshold = ValueError"
| "exception_class ConsensusOutOfRange = ValueError"
| "exception_class NoModelFound = ValueError"
| "exception_class SampleLargerThanPopulation = ValueError"
| "exception_class TupleIndexOutOfRange = IndexError"
| "exception_class IndexOutOfBounds = IndexError"
| "exception_class CannotReshape = ValueError"
| "exception_class MatmulMismatch = ValueError"
| "exception_class ZeroDivision = ZeroDivisionError"

datatype error_kind = ShapeError | ConfigError | DegenerateInputError | NoConsensusError

text \<open>
  Modelled from the spec: the error taxonomy of the specification is not in the source,
  which raises \<^verbatim>\<open>TypeError\<close> and \<^verbatim>\<open>ValueError\<close> with a message. Each \<^verbatim>\<open>raise\<close> of the
  module is given the kind that the specification describes for it; the exceptions raised
  by library calls have no kind.
\<close>

fun kind_of :: "error \<Rightarrow> error_kind option" where
  "kind_of NotNumpyArray = Some ShapeError"
| "kind_of Not4Rows = Some ShapeError"
| "kind_of Not4Columns = Some ShapeError"
| "kind_of (UnknownMethod m) = Some ConfigError"
| "kind_of IterationsLessThan1 = Some ConfigError"
| "kind_of NegativeErrorThreshold = Some ConfigError"
| "kind_of ConsensusOutOfRange = Some ConfigError"
| "kind_of RankLessThan6 = Some DegenerateInputError"
| "kind_of NoModelFound = Some NoConsensusError"
| "kind_of SampleLargerThanPopulation = None"
| "kind_of TupleIndexOutOfRange = None"
| "kind_of IndexOutOfBounds = None"
| "kind_of CannotReshape = None"
| "kind_of MatmulMismatch = None"
| "kind_of ZeroDivision = None"

subsection \<open>Values\<close>

text \<open>
  The first argument of the public functions is any Python object. An \<^verbatim>\<open>ndarray\<close> is its
  shape and its elements in row-major order; every other object is \<open>NotArray\<close>.
\<close>

datatype pyobj = NotArray | NDArray "nat list" "real list"

datatype pyvec = PyNone | Vec "real list"

type_synonym calibration = "pyvec \<times> pyvec \<times> real"

type_synonym matrix = "real list list"

type_synonym svd_fun = "matrix \<Rightarrow> matrix \<times> real list \<times> matrix"

record configuration =
  cfg_method :: "string option"
  cfg_number_iterations :: "int option"
  cfg_error_threshold :: "real option"
  cfg_consensus_threshold :: "real option"
  cfg_early_exit :: "bool option"

text \<open>
  The configuration dictionary, with a field for each key that the module reads; a key that
  is absent is \<open>None\<close>, and \<^verbatim>\<open>configuration.get(key, default)\<close> is \<open>get_or\<close>.
\<close>

definition get_or :: "'a option \<Rightarrow> 'a \<Rightarrow> 'a" where
  "get_or v d = (case v of None \<Rightarrow> d | Some x \<Rightarrow> x)"

subsection \<open>Linear algebra on lists\<close>

definition dot :: "real list \<Rightarrow> real list \<Rightarrow> real" where
  "dot xs ys = sum_list (map2 (*) xs ys)"

definition mat_vec :: "matrix \<Rightarrow> real list \<Rightarrow> real list" where
  "mat_vec m v = map (\<lambda>row. dot row v) m"

definition diag :: "real list \<Rightarrow> matrix" where
  "diag d = map (\<lambda>i. map (\<lambda>j. if i = j then d ! i else 0) [0..<length d]) [0..<length d]"

definition eye :: "nat \<Rightarrow> matrix" where
  "eye n = map (\<lambda>i. map (\<lambda>j. if i = j then 1 else 0) [0..<n]) [0..<n]"

definition vec_sub :: "real list \<Rightarrow> real list \<Rightarrow> real list" where
  "vec_sub xs ys = map2 (-) xs ys"

definition sum_squares :: "real list \<Rightarrow> real" where
  "sum_squares v = sum_list (map2 (*) v v)"

text \<open>Element \<open>[i, j, k]\<close> of an array whose shape is \<open>N \<times> 4 \<times> 4\<close>.\<close>

definition elem :: "real list \<Rightarrow> nat \<Rightarrow> nat \<Rightarrow> nat \<Rightarrow> real" where
  "elem fl i j k = fl ! ((i * 4 + j) * 4 + k)"

subsection \<open>\<^verbatim>\<open>replace_small_values\<close>\<close>

text \<open>
  The loop runs over the indices of the list and overwrites the list in place; the model
  threads the list and the counter and returns both.
\<close>

fun replace_small_values_loop ::
  "nat list \<Rightarrow> real \<Rightarrow> real \<Rightarrow> real list \<times> int \<Rightarrow> real list \<times> int" where
  "replace_small_values_loop [] threshold replacement_value (the_list, rank) = (the_list, rank)"
| "replace_small_values_loop (index # rest) threshold replacement_value (the_list, rank) =
     (if the_list ! index < threshold
      then replace_small_values_loop rest threshold replacement_value
             (the_list[index := replacement_value], rank)
      else replace_small_values_loop rest threshold replacement_value
             (the_list, rank + 1))"

definition replace_small_values :: "real list \<Rightarrow> real \<Rightarrow> real \<Rightarrow> real list \<times> int" where
  "replace_small_values the_list threshold replacement_value =
     replace_small_values_loop [0..<length the_list] threshold replacement_value (the_list, 0)"

subsection \<open>\<^verbatim>\<open>pivot_calibration_aos\<close>\<close>

text \<open>
  The function is modelled on arrays of shape \<open>N \<times> 4 \<times> 4\<close> followed by any further
  dimensions \<open>rest\<close>, which is what the shape check of \<^verbatim>\<open>pivot_calibration\<close> lets through.
  The slice \<^verbatim>\<open>[:, 0:3, 0:3]\<close> has \<open>9 * N * prod rest\<close> elements, and reshaping it to
  \<open>3 * N\<close> rows of 3 raises unless the sizes agree.
\<close>

definition a_first :: "nat \<Rightarrow> real list \<Rightarrow> matrix" where
  "a_first number_of_matrices fl =
     concat (map (\<lambda>i. map (\<lambda>r. map (\<lambda>c. elem fl i r c) [0..<3]) [0..<3])
                 [0..<number_of_matrices])"

definition a_second :: "nat \<Rightarrow> matrix" where
  "a_second number_of_matrices =
     concat (replicate number_of_matrices (map (map (\<lambda>v. v * (- 1))) (eye 3)))"

definition a_values :: "nat \<Rightarrow> real list \<Rightarrow> matrix" where
  "a_values number_of_matrices fl =
     map2 (@) (a_first number_of_matrices fl) (a_second number_of_matrices)"

definition b_values :: "nat \<Rightarrow> real list \<Rightarrow> real list" where
  "b_values number_of_matrices fl =
     concat (map (\<lambda>i. map (\<lambda>r. elem fl i r 3 * (- 1)) [0..<3]) [0..<number_of_matrices])"

text \<open>Lines 95 to 98: the solution, computed before the rank is looked at.\<close>

definition x_values :: "svd_fun \<Rightarrow> nat \<Rightarrow> real list \<Rightarrow> real list" where
  "x_values svd number_of_matrices fl =
     (case svd (a_values number_of_matrices fl) of (u_values, s_values, v_values) \<Rightarrow>
        let c_values = mat_vec (transpose u_values) (b_values number_of_matrices fl);
            w_values = mat_vec (diag (map (\<lambda>s. 1 / s) s_values)) c_values
        in mat_vec (transpose v_values) w_values)"

definition residual_error_of :: "nat \<Rightarrow> real list \<Rightarrow> real list \<Rightarrow> real" where
  "residual_error_of number_of_matrices fl x =
     sqrt (sum_squares (vec_sub (mat_vec (a_values number_of_matrices fl) x)
                                (b_values number_of_matrices fl))
           / real (number_of_matrices * 3))"

definition pivot_calibration_aos :: "svd_fun \<Rightarrow> nat list \<Rightarrow> real list \<Rightarrow> error + calibration" where
  "pivot_calibration_aos svd sh fl =
     (let number_of_matrices = hd sh in
      if 9 * number_of_matrices * prod_list (drop 3 sh) \<noteq> 3 * number_of_matrices * 3
      then Inl CannotReshape
      else
        (case svd (a_values number_of_matrices fl) of (u_values, s_values, v_values) \<Rightarrow>
           let x = x_values svd number_of_matrices fl;
               (s_replaced, rank) = replace_small_values s_values 0.01 0.0
           in if rank < 6 then Inl RankLessThan6
              else Inr (Vec (take 3 x), Vec (take 3 (drop 3 x)),
                        residual_error_of number_of_matrices fl x)))"

subsection \<open>The shape check and the call without a configuration\<close>

text \<open>Lines 26 to 33. Reading \<^verbatim>\<open>shape[1]\<close> or \<^verbatim>\<open>shape[2]\<close> of a shorter shape raises.\<close>

definition shape_check :: "pyobj \<Rightarrow> error + (nat list \<times> real list)" where
  "shape_check tracking_matrices =
     (case tracking_matrices of
        NotArray \<Rightarrow> Inl NotNumpyArray
      | NDArray sh fl \<Rightarrow>
          if length sh < 2 then Inl TupleIndexOutOfRange
          else if \<not> sh ! 1 = 4 then Inl Not4Rows
          else if length sh < 3 then Inl TupleIndexOutOfRange
          else if \<not> sh ! 2 = 4 then Inl Not4Columns
          else Inr (sh, fl))"

text \<open>
  \<^verbatim>\<open>pivot_calibration(m)\<close> with \<^verbatim>\<open>configuration=None\<close>, the form in which the RANSAC loop
  calls the dispatcher. It is defined first because the dispatcher calls the RANSAC function.
\<close>

definition pivot_calibration_none :: "svd_fun \<Rightarrow> pyobj \<Rightarrow> error + calibration" where
  "pivot_calibration_none svd tracking_matrices =
     (case shape_check tracking_matrices of
        Inl e \<Rightarrow> Inl e
      | Inr (sh, fl) \<Rightarrow> pivot_calibration_aos svd sh fl)"

subsection \<open>\<^verbatim>\<open>pivot_calibration_with_ransac\<close>\<close>

text \<open>\<^verbatim>\<open>random.sample(population, k)\<close> raises when \<open>k\<close> exceeds the population.\<close>

definition random_sample :: "(nat \<Rightarrow> nat list) \<Rightarrow> nat \<Rightarrow> nat \<Rightarrow> nat \<Rightarrow> error + nat list" where
  "random_sample draws iter_counter population k =
     (if population < k then Inl SampleLargerThanPopulation else Inr (draws iter_counter))"

text \<open>\<^verbatim>\<open>tracking_matrices[indexes]\<close> with a list of indices along the first axis.\<close>

definition fancy_index :: "nat list \<Rightarrow> real list \<Rightarrow> nat list \<Rightarrow> error + pyobj" where
  "fancy_index sh fl indexes =
     (case sh of
        [] \<Rightarrow> Inl IndexOutOfBounds
      | n # inner \<Rightarrow>
          if list_ex (\<lambda>i. n \<le> i) indexes then Inl IndexOutOfBounds
          else Inr (NDArray (length indexes # inner)
                      (concat (map (\<lambda>i. take (prod_list inner) (drop (i * prod_list inner) fl))
                                   indexes))))"

definition pose :: "real list \<Rightarrow> nat \<Rightarrow> matrix" where
  "pose fl i = map (\<lambda>r. map (\<lambda>c. elem fl i r c) [0..<4]) [0..<4]"

text \<open>Lines 187 to 190: the distance of one pose from the candidate model.\<close>

definition pose_distance :: "real list \<Rightarrow> real list \<Rightarrow> real list \<Rightarrow> nat \<Rightarrow> real" where
  "pose_distance fl pointer_offset pivot_location matrix_counter =
     (let offset = pointer_offset @ [1];
          transformed_point = mat_vec (pose fl matrix_counter) offset;
          diff = vec_sub pivot_location (take 3 transformed_point)
      in sqrt (sum_squares diff))"

text \<open>Lines 184 to 193: the loop over all the matrices, with its two accumulators.\<close>

fun count_inliers ::
  "real list \<Rightarrow> real list \<Rightarrow> real list \<Rightarrow> real \<Rightarrow> nat list \<Rightarrow> int \<times> nat list \<Rightarrow> int \<times> nat list" where
  "count_inliers fl pointer_offset pivot_location error_threshold []
     (number_of_inliers, inlier_indices) = (number_of_inliers, inlier_indices)"
| "count_inliers fl pointer_offset pivot_location error_threshold (matrix_counter # rest)
     (number_of_inliers, inlier_indices) =
     (if pose_distance fl pointer_offset pivot_location matrix_counter < error_threshold
      then count_inliers fl pointer_offset pivot_location error_threshold rest
             (number_of_inliers + 1, inlier_indices @ [matrix_counter])
      else count_inliers fl pointer_offset pivot_location error_threshold rest
             (number_of_inliers, inlier_indices))"

record ransac_state =
  highest_number_of_inliers :: int
  best_pointer_offset :: pyvec
  best_pivot_location :: pyvec
  best_residual_error :: real
  printed_failed :: "nat list"

definition initial_state :: ransac_state where
  "initial_state = \<lparr> highest_number_of_inliers = - 1, best_pointer_offset = PyNone,
     best_pivot_location = PyNone, best_residual_error = - 1, printed_failed = [] \<rparr>"

datatype step = Continue ransac_state | Return calibration | Raise error

definition vec_of :: "pyvec \<Rightarrow> real list" where
  "vec_of v = (case v of PyNone \<Rightarrow> [] | Vec xs \<Rightarrow> xs)"

text \<open>
  Lines 176 to 180: fitting the sample. A \<^verbatim>\<open>ValueError\<close> is caught and gives \<open>None\<close>; any
  other exception leaves the function.
\<close>

definition fit_sample :: "svd_fun \<Rightarrow> pyobj \<Rightarrow> error + (calibration option)" where
  "fit_sample svd sample =
     (case pivot_calibration_none svd sample of
        Inl e \<Rightarrow> if exception_class e = ValueError then Inr None else Inl e
      | Inr model \<Rightarrow> Inr (Some model))"

text \<open>Lines 172 to 180: drawing the sample and fitting it.\<close>

definition draw_and_fit ::
  "svd_fun \<Rightarrow> (nat \<Rightarrow> nat list) \<Rightarrow> nat list \<Rightarrow> real list \<Rightarrow> nat \<Rightarrow> error + (calibration option)" where
  "draw_and_fit svd draws sh fl iter_counter =
     (case random_sample draws iter_counter (hd sh) 3 of
        Inl e \<Rightarrow> Inl e
      | Inr indexes \<Rightarrow>
          (case fancy_index sh fl indexes of
             Inl e \<Rightarrow> Inl e
           | Inr sample \<Rightarrow> fit_sample svd sample))"

text \<open>Lines 201 to 203: the fit on the inliers, outside any \<^verbatim>\<open>try\<close>.\<close>

definition refit :: "svd_fun \<Rightarrow> nat list \<Rightarrow> real list \<Rightarrow> nat list \<Rightarrow> error + calibration" where
  "refit svd sh fl inlier_indices =
     (case fancy_index sh fl inlier_indices of
        Inl e \<Rightarrow> Inl e
      | Inr inlier_matrices \<Rightarrow> pivot_calibration_none svd inlier_matrices)"

text \<open>
  Lines 184 to 207: the body of the loop after a successful fit of the sample.
  The product of an array with further dimensions and the 4 by 1 offset raises.
\<close>

definition score_and_update ::
  "svd_fun \<Rightarrow> nat list \<Rightarrow> real list \<Rightarrow> real \<Rightarrow> real \<Rightarrow> bool \<Rightarrow> ransac_state \<Rightarrow> calibration \<Rightarrow> step" where
  "score_and_update svd sh fl error_threshold concensus_threshold early_exit st model =
     (case model of (pointer_offset, pivot_location, unused) \<Rightarrow>
      let number_of_matrices = hd sh in
      if 0 < number_of_matrices \<and> drop 3 sh \<noteq> [] then Raise MatmulMismatch
      else
        (case count_inliers fl (vec_of pointer_offset) (vec_of pivot_location) error_threshold
                [0..<number_of_matrices] (0, []) of (number_of_inliers, inlier_indices) \<Rightarrow>
         if number_of_matrices = 0 then Raise ZeroDivision
         else
           let percentage_inliers = real_of_int number_of_inliers / real number_of_matrices in
           if percentage_inliers > concensus_threshold
              \<and> number_of_inliers > highest_number_of_inliers st
           then
             (case refit svd sh fl inlier_indices of
                Inl e \<Rightarrow> Raise e
              | Inr (po, pl, re) \<Rightarrow>
                  let st' = st \<lparr> highest_number_of_inliers := number_of_inliers,
                                 best_pointer_offset := po, best_pivot_location := pl,
                                 best_residual_error := re \<rparr>
                  in if percentage_inliers > concensus_threshold \<and> early_exit
                     then Return (best_pointer_offset st', best_pivot_location st',
                                  best_residual_error st')
                     else Continue st')
           else if percentage_inliers > concensus_threshold \<and> early_exit
           then Return (best_pointer_offset st, best_pivot_location st, best_residual_error st)
           else Continue st))"

text \<open>Lines 172 to 207: one iteration of the loop.\<close>

definition ransac_iteration ::
  "svd_fun \<Rightarrow> (nat \<Rightarrow> nat list) \<Rightarrow> nat list \<Rightarrow> real list \<Rightarrow> real \<Rightarrow> real \<Rightarrow> bool \<Rightarrow>
   ransac_state \<Rightarrow> nat \<Rightarrow> step" where
  "ransac_iteration svd draws sh fl error_threshold concensus_threshold early_exit st iter_counter =
     (case draw_and_fit svd draws sh fl iter_counter of
        Inl e \<Rightarrow> Raise e
      | Inr None \<Rightarrow> Continue (st \<lparr> printed_failed := printed_failed st @ [iter_counter] \<rparr>)
      | Inr (Some model) \<Rightarrow>
          score_and_update svd sh fl error_threshold concensus_threshold early_exit st model)"

text \<open>The \<^verbatim>\<open>for\<close> loop and lines 209 to 218 after it.\<close>

fun ransac_loop ::
  "svd_fun \<Rightarrow> (nat \<Rightarrow> nat list) \<Rightarrow> nat list \<Rightarrow> real list \<Rightarrow> real \<Rightarrow> real \<Rightarrow> bool \<Rightarrow>
   nat list \<Rightarrow> ransac_state \<Rightarrow> error + calibration" where
  "ransac_loop svd draws sh fl error_threshold concensus_threshold early_exit [] st =
     (if best_pointer_offset st = PyNone then Inl NoModelFound
      else Inr (best_pointer_offset st, best_pivot_location st, best_residual_error st))"
| "ransac_loop svd draws sh fl error_threshold concensus_threshold early_exit (iter_counter # rest) st =
     (case ransac_iteration svd draws sh fl error_threshold concensus_threshold early_exit
             st iter_counter of
        Raise e \<Rightarrow> Inl e
      | Return model \<Rightarrow> Inr model
      | Continue st' \<Rightarrow>
          ransac_loop svd draws sh fl error_threshold concensus_threshold early_exit rest st')"

definition pivot_calibration_with_ransac ::
  "svd_fun \<Rightarrow> (nat \<Rightarrow> nat list) \<Rightarrow> pyobj \<Rightarrow> int \<Rightarrow> real \<Rightarrow> real \<Rightarrow> bool \<Rightarrow> error + calibration" where
  "pivot_calibration_with_ransac svd draws tracking_matrices number_iterations error_threshold
     concensus_threshold early_exit =
     (if number_iterations < 1 then Inl IterationsLessThan1
      else if error_threshold < 0 then Inl NegativeErrorThreshold
      else if concensus_threshold < 0 \<or> concensus_threshold > 1 then Inl ConsensusOutOfRange
      else
        (case tracking_matrices of
           NotArray \<Rightarrow> Inl NotNumpyArray
         | NDArray sh fl \<Rightarrow>
             if sh = [] then Inl TupleIndexOutOfRange
             else ransac_loop svd draws sh fl error_threshold concensus_threshold early_exit
                    [0..<nat number_iterations] initial_state))"

subsection \<open>\<^verbatim>\<open>pivot_calibration\<close>\<close>

definition pivot_calibration ::
  "svd_fun \<Rightarrow> (nat \<Rightarrow> nat list) \<Rightarrow> pyobj \<Rightarrow> configuration option \<Rightarrow> error + calibration" where
  "pivot_calibration svd draws tracking_matrices config =
     (case shape_check tracking_matrices of
        Inl e \<Rightarrow> Inl e
      | Inr (sh, fl) \<Rightarrow>
          (case config of
             None \<Rightarrow> pivot_calibration_aos svd sh fl
           | Some cfg \<Rightarrow>
               let use_algebraic_one_step = (get_or (cfg_method cfg) ''aos'' = ''aos'');
                   use_ransac = (\<not> use_algebraic_one_step \<and> get_or (cfg_method cfg) ''aos'' = ''ransac'')
               in if use_algebraic_one_step then pivot_calibration_aos svd sh fl
                  else if use_ransac then
                    pivot_calibration_with_ransac svd draws tracking_matrices
                      (get_or (cfg_number_iterations cfg) 10)
                      (get_or (cfg_error_threshold cfg) 4)
                      (get_or (cfg_consensus_threshold cfg) 0.25)
                      (get_or (cfg_early_exit cfg) False)
                  else Inl (UnknownMethod (get_or (cfg_method cfg) ''aos''))))"

subsection \<open>Notions used in the statements about the loop\<close>

text \<open>
  The inliers that iteration \<open>i\<close> finds, when its sample could be fitted; whether they are
  more than the consensus fraction of all poses; and whether the iteration passes without
  raising and without consensus.
\<close>

definition inliers_at ::
  "svd_fun \<Rightarrow> (nat \<Rightarrow> nat list) \<Rightarrow> nat list \<Rightarrow> real list \<Rightarrow> real \<Rightarrow> nat \<Rightarrow> nat list option" where
  "inliers_at svd draws sh fl error_threshold i =
     (case draw_and_fit svd draws sh fl i of
        Inr (Some (po, pl, re)) \<Rightarrow>
          Some (snd (count_inliers fl (vec_of po) (vec_of pl) error_threshold [0..<hd sh] (0, [])))
      | _ \<Rightarrow> None)"

definition consensus_at ::
  "svd_fun \<Rightarrow> (nat \<Rightarrow> nat list) \<Rightarrow> nat list \<Rightarrow> real list \<Rightarrow> real \<Rightarrow> real \<Rightarrow> nat \<Rightarrow> bool" where
  "consensus_at svd draws sh fl error_threshold concensus_threshold i =
     (case inliers_at svd draws sh fl error_threshold i of
        None \<Rightarrow> False
      | Some inl \<Rightarrow> real (length inl) / real (hd sh) > concensus_threshold)"

definition quiet_at ::
  "svd_fun \<Rightarrow> (nat \<Rightarrow> nat list) \<Rightarrow> nat list \<Rightarrow> real list \<Rightarrow> real \<Rightarrow> real \<Rightarrow> nat \<Rightarrow> bool" where
  "quiet_at svd draws sh fl error_threshold concensus_threshold i =
     (case draw_and_fit svd draws sh fl i of
        Inl e \<Rightarrow> False
      | Inr r \<Rightarrow> \<not> consensus_at svd draws sh fl error_threshold concensus_threshold i)"

text \<open>
  The number of inliers of iteration \<open>i\<close>, and the iteration that the loop prefers among
  the first \<open>k\<close>: one that reaches consensus with at least as many inliers as every other
  such iteration and strictly more than every earlier one.
\<close>

definition votes_at ::
  "svd_fun \<Rightarrow> (nat \<Rightarrow> nat list) \<Rightarrow> nat list \<Rightarrow> real list \<Rightarrow> real \<Rightarrow> nat \<Rightarrow> nat" where
  "votes_at svd draws sh fl error_threshold i =
     (case inliers_at svd draws sh fl error_threshold i of None \<Rightarrow> 0 | Some inl \<Rightarrow> length inl)"

definition is_best ::
  "svd_fun \<Rightarrow> (nat \<Rightarrow> nat list) \<Rightarrow> nat list \<Rightarrow> real list \<Rightarrow> real \<Rightarrow> real \<Rightarrow> nat \<Rightarrow> nat \<Rightarrow> bool" where
  "is_best svd draws sh fl error_threshold concensus_threshold k i \<longleftrightarrow>
     i < k \<and> consensus_at svd draws sh fl error_threshold concensus_threshold i
     \<and> (\<forall>j<k. consensus_at svd draws sh fl error_threshold concensus_threshold j
            \<longrightarrow> votes_at svd draws sh fl error_threshold j
                \<le> votes_at svd draws sh fl error_threshold i)
     \<and> (\<forall>j<i. consensus_at svd draws sh fl error_threshold concensus_threshold j
            \<longrightarrow> votes_at svd draws sh fl error_threshold j
                < votes_at svd draws sh fl error_threshold i)"

text \<open>
  An iteration is calm when nothing leaves it: its sample is drawn and either fitted or
  caught, and if it is preferred among the iterations up to itself, which is when the loop
  fits its inliers, that fit succeeds.
\<close>

definition calm_at ::
  "svd_fun \<Rightarrow> (nat \<Rightarrow> nat list) \<Rightarrow> nat list \<Rightarrow> real list \<Rightarrow> real \<Rightarrow> real \<Rightarrow> nat \<Rightarrow> bool" where
  "calm_at svd draws sh fl error_threshold concensus_threshold k \<longleftrightarrow>
     (\<exists>r. draw_and_fit svd draws sh fl k = Inr r)
     \<and> (is_best svd draws sh fl error_threshold concensus_threshold (Suc k) k
          \<longrightarrow> (\<exists>m. refit svd sh fl (the (inliers_at svd draws sh fl error_threshold k)) = Inr m))"

text \<open>
  The loop invariant: before iteration \<open>k\<close> the state either holds no model, no earlier
  iteration having reached consensus, or holds the fit on the inliers of the iteration
  preferred among the first \<open>k\<close>, together with its number of inliers.
\<close>

definition tracks ::
  "svd_fun \<Rightarrow> (nat \<Rightarrow> nat list) \<Rightarrow> nat list \<Rightarrow> real list \<Rightarrow> real \<Rightarrow> real \<Rightarrow> nat \<Rightarrow>
   ransac_state \<Rightarrow> bool" where
  "tracks svd draws sh fl error_threshold concensus_threshold k st \<longleftrightarrow>
     (best_pointer_offset st = PyNone \<and> highest_number_of_inliers st = - 1
        \<and> (\<forall>j<k. \<not> consensus_at svd draws sh fl error_threshold concensus_threshold j))
     \<or> (\<exists>i. is_best svd draws sh fl error_threshold concensus_threshold k i
            \<and> refit svd sh fl (the (inliers_at svd draws sh fl error_threshold i))
                = Inr (best_pointer_offset st, best_pivot_location st, best_residual_error st)
            \<and> highest_number_of_inliers st = int (votes_at svd draws sh fl error_threshold i))"

subsection \<open>The solution as the specification words it\<close>


subsection \<open>Concrete inputs\<close>

text \<open>
  Four poses whose rotations are the identity and the half turns about the z, x and y axes,
  with translations \<open>t = P - R O\<close> for the pointer offset \<open>O = (1, 2, 3)\<close> and the pivot
  \<open>P = (10, 20, 30)\<close>. For these poses \<open>A\<^sup>T A = 4 I\<close>, so \<open>A = (A / 2) (2 I) I\<close> is a
  singular value decomposition of \<open>A\<close>, with all six singular values equal to 2.
\<close>

definition half_turn_poses :: "real list" where
  "half_turn_poses =
     [1, 0, 0, 9,    0, 1, 0, 18,    0, 0, 1, 27,    0, 0, 0, 1,
      - 1, 0, 0, 11,  0, - 1, 0, 22,  0, 0, 1, 27,    0, 0, 0, 1,
      1, 0, 0, 9,    0, - 1, 0, 22,  0, 0, - 1, 33,  0, 0, 0, 1,
      - 1, 0, 0, 11,  0, 1, 0, 18,    0, 0, - 1, 33,  0, 0, 0, 1]"

definition half_turn_svd :: svd_fun where
  "half_turn_svd a = (map (map (\<lambda>v. v / 2)) a, [2, 2, 2, 2, 2, 2], eye 6)"

definition fixed_draws :: "nat \<Rightarrow> nat list" where
  "fixed_draws i = [0, 1, 2]"

text \<open>
  A single pose with the identity rotation gives \<open>A = [I | - I]\<close> with \<open>A A\<^sup>T = 2 I\<close>, so
  \<open>A = I (sqrt 2 I) (A / sqrt 2)\<close> is a decomposition with three singular values.
\<close>

definition single_pose_svd :: svd_fun where
  "single_pose_svd a = (eye 3, [sqrt 2, sqrt 2, sqrt 2], map (map (\<lambda>v. v / sqrt 2)) a)"

text \<open>
  The first three of the four poses above stack to a matrix with singular values 2 (three
  times) and \<open>sqrt 2\<close> (three times); \<open>trio_u\<close>, \<open>trio_s\<close> and \<open>trio_vh\<close> are its decomposition.
  The matrix depends on the rotations only, so the decomposition also serves the poses
  \<open>skewed_poses\<close>, in which the third translation is moved by 10 along x.
\<close>

definition trio_u :: matrix where
  "trio_u =
    [[1 / sqrt 2, 0, 0,   0, 0, 0],
     [0, 0, 0,            0, 1, 0],
     [0, 0, 1 / sqrt 2,   0, 0, 0],
     [0, 0, 0,            - 1, 0, 0],
     [0, - 1 / sqrt 2, 0, 0, 0, 0],
     [0, 0, 1 / sqrt 2,   0, 0, 0],
     [1 / sqrt 2, 0, 0,   0, 0, 0],
     [0, - 1 / sqrt 2, 0, 0, 0, 0],
     [0, 0, 0,            0, 0, - 1]]"

definition trio_s :: "real list" where
  "trio_s = [2, 2, 2, sqrt 2, sqrt 2, sqrt 2]"

definition trio_vh :: matrix where
  "trio_vh =
    [[1 / sqrt 2, 0, 0, - 1 / sqrt 2, 0, 0],
     [0, 1 / sqrt 2, 0, 0, 1 / sqrt 2, 0],
     [0, 0, 1 / sqrt 2, 0, 0, - 1 / sqrt 2],
     [1 / sqrt 2, 0, 0, 1 / sqrt 2, 0, 0],
     [0, 1 / sqrt 2, 0, 0, - 1 / sqrt 2, 0],
     [0, 0, 1 / sqrt 2, 0, 0, 1 / sqrt 2]]"

definition skewed_poses :: "real list" where
  "skewed_poses =
     [1, 0, 0, 9,    0, 1, 0, 18,    0, 0, 1, 27,    0, 0, 0, 1,
      - 1, 0, 0, 11,  0, - 1, 0, 22,  0, 0, 1, 27,    0, 0, 0, 1,
      1, 0, 0, 19,   0, - 1, 0, 22,  0, 0, - 1, 33,  0, 0, 0, 1]"

text \<open>
  Three copies of one pose stack to a matrix of rank 3, with singular values \<open>sqrt 6\<close>
  (three times) and 0 (three times).
\<close>

definition identical_poses :: "real list" where
  "identical_poses =
     [1, 0, 0, 9,    0, 1, 0, 18,    0, 0, 1, 27,    0, 0, 0, 1,
      1, 0, 0, 9,    0, 1, 0, 18,    0, 0, 1, 27,    0, 0, 0, 1,
      1, 0, 0, 9,    0, 1, 0, 18,    0, 0, 1, 27,    0, 0, 0, 1]"

definition identical_u :: matrix where
  "identical_u =
    [[1 / sqrt 3, 0, 0,   1 / sqrt 2, 0, 0],
     [0, 1 / sqrt 3, 0,   0, 1 / sqrt 2, 0],
     [0, 0, 1 / sqrt 3,   0, 0, 1 / sqrt 2],
     [1 / sqrt 3, 0, 0,   - 1 / sqrt 2, 0, 0],
     [0, 1 / sqrt 3, 0,   0, - 1 / sqrt 2, 0],
     [0, 0, 1 / sqrt 3,   0, 0, - 1 / sqrt 2],
     [1 / sqrt 3, 0, 0,   0, 0, 0],
     [0, 1 / sqrt 3, 0,   0, 0, 0],
     [0, 0, 1 / sqrt 3,   0, 0, 0]]"

definition identical_s :: "real list" where
  "identical_s = [sqrt 6, sqrt 6, sqrt 6, 0, 0, 0]"

definition identical_vh :: matrix where
  "identical_vh =
    [[1 / sqrt 2, 0, 0, - 1 / sqrt 2, 0, 0],
     [0, 1 / sqrt 2, 0, 0, - 1 / sqrt 2, 0],
     [0, 0, 1 / sqrt 2, 0, 0, - 1 / sqrt 2],
     [1 / sqrt 2, 0, 0, 1 / sqrt 2, 0, 0],
     [0, 1 / sqrt 2, 0, 0, 1 / sqrt 2, 0],
     [0, 0, 1 / sqrt 2, 0, 0, 1 / sqrt 2]]"

definition identical_svd :: svd_fun where
  "identical_svd a = (identical_u, identical_s, identical_vh)"

text \<open>
  The decomposition used for the runs of the RANSAC loop below, chosen by the number of
  rows: one pose, three poses with the rotations of the trio, or the four poses.
\<close>

definition example_svd :: svd_fun where
  "example_svd a =
     (if length a = 3 then single_pose_svd a
      else if length a = 9 then (trio_u, trio_s, trio_vh)
      else half_turn_svd a)"

text \<open>
  Two poses whose upper left blocks are \<open>113494/85683 I\<close> and \<open>153317/114244 I\<close> (not
  rotations; the module does not look). Their stacked matrix has the singular values
  \<open>1195/507\<close> and \<open>5/676\<close>, three times each, and the second is below 0.01.
\<close>

definition near_singular_poses :: "real list" where
  "near_singular_poses =
     [113494 / 85683, 0, 0, 1,   0, 113494 / 85683, 0, 2,   0, 0, 113494 / 85683, 3,
      0, 0, 0, 1,
      153317 / 114244, 0, 0, 2,  0, 153317 / 114244, 0, 3,  0, 0, 153317 / 114244, 4,
      0, 0, 0, 1]"

definition near_singular_u :: matrix where
  "near_singular_u =
    [[119 / 169, 0, 0,  - 120 / 169, 0, 0],
     [0, 119 / 169, 0,  0, - 120 / 169, 0],
     [0, 0, 119 / 169,  0, 0, - 120 / 169],
     [120 / 169, 0, 0,  119 / 169, 0, 0],
     [0, 120 / 169, 0,  0, 119 / 169, 0],
     [0, 0, 120 / 169,  0, 0, 119 / 169]]"

definition near_singular_s :: "real list" where
  "near_singular_s = [1195 / 507, 1195 / 507, 1195 / 507, 5 / 676, 5 / 676, 5 / 676]"

definition near_singular_vh :: matrix where
  "near_singular_vh =
    [[4 / 5, 0, 0,  - 3 / 5, 0, 0],
     [0, 4 / 5, 0,  0, - 3 / 5, 0],
     [0, 0, 4 / 5,  0, 0, - 3 / 5],
     [3 / 5, 0, 0,  4 / 5, 0, 0],
     [0, 3 / 5, 0,  0, 4 / 5, 0],
     [0, 0, 3 / 5,  0, 0, 4 / 5]]"

definition near_singular_svd :: svd_fun where
  "near_singular_svd a = (near_singular_u, near_singular_s, near_singular_vh)"

text \<open>
  What makes a triple a decomposition of \<open>a\<close>: \<open>a = u diag(s) vh\<close>, the columns of \<open>u\<close> are
  orthonormal and so are the rows of \<open>vh\<close>.
\<close>

definition gram :: "matrix \<Rightarrow> matrix" where
  "gram m = map (\<lambda>r. map (\<lambda>r'. dot r r') m) m"

definition decomposes :: "matrix \<Rightarrow> matrix \<times> real list \<times> matrix \<Rightarrow> bool" where
  "decomposes a usv =
     (case usv of (u, s, vh) \<Rightarrow>
        a = map (\<lambda>row. mat_vec (transpose vh) (map2 (*) row s)) u
        \<and> gram (transpose u) = eye (length s) \<and> gram vh = eye (length s))"

text \<open>
  The shape of a thin decomposition of a matrix with \<open>m\<close> rows and 6 columns:
  \<open>u\<close> is \<open>m \<times> k\<close> and \<open>vh\<close> is \<open>k \<times> 6\<close>, where \<open>k\<close> is the number of singular values.
\<close>

definition svd_shape :: "nat \<Rightarrow> matrix \<times> real list \<times> matrix \<Rightarrow> bool" where
  "svd_shape m usv =
     (case usv of (u, s, vh) \<Rightarrow>
        length u = m \<and> list_all (\<lambda>row. length row = length s) u
        \<and> length vh = length s \<and> list_all (\<lambda>row. length row = 6) vh)"

section \<open>Properties\<close>

subsection \<open>Parameter validation of the RANSAC function\<close>

text \<open>
  C8. \<^verbatim>\<open>pivot_calibration_with_ransac\<close> checks its parameters first: whatever the poses,
  the decomposition and the random draws are, it raises the iteration error if
  \<open>number_iterations < 1\<close>, else the threshold error if \<open>error_threshold < 0\<close>, else the
  consensus error if \<open>concensus_threshold\<close> is outside \<open>[0, 1]\<close>; each is a ConfigError.
\<close>

theorem ransac_parameter_validation:
  "(number_iterations < 1 \<longrightarrow>
      pivot_calibration_with_ransac svd draws tm number_iterations error_threshold
        concensus_threshold early_exit = Inl IterationsLessThan1)
   \<and> (\<not> number_iterations < 1 \<and> error_threshold < 0 \<longrightarrow>
      pivot_calibration_with_ransac svd draws tm number_iterations error_threshold
        concensus_threshold early_exit = Inl NegativeErrorThreshold)
   \<and> (\<not> number_iterations < 1 \<and> \<not> error_threshold < 0
       \<and> (concensus_threshold < 0 \<or> concensus_threshold > 1) \<longrightarrow>
      pivot_calibration_with_ransac svd draws tm number_iterations error_threshold
        concensus_threshold early_exit = Inl ConsensusOutOfRange)
   \<and> (number_iterations < 1 \<or> error_threshold < 0 \<or> concensus_threshold < 0
       \<or> concensus_threshold > 1 \<longrightarrow>
      (\<exists>e. pivot_calibration_with_ransac svd draws tm number_iterations error_threshold
             concensus_threshold early_exit = Inl e \<and> kind_of e = Some ConfigError))"
  by (simp add: pivot_calibration_with_ransac_def)

theorem ransac_parameter_validation_witness:
  "pivot_calibration_with_ransac half_turn_svd fixed_draws NotArray 0 4 (1/4) False
     = Inl IterationsLessThan1
   \<and> pivot_calibration_with_ransac half_turn_svd fixed_draws NotArray 10 (- 1) (1/4) False
     = Inl NegativeErrorThreshold
   \<and> pivot_calibration_with_ransac half_turn_svd fixed_draws NotArray 10 4 (3/2) False
     = Inl ConsensusOutOfRange"
  using ransac_parameter_validation [where number_iterations = 0 and tm = NotArray
      and error_threshold = 4 and concensus_threshold = "1/4"]
    ransac_parameter_validation [where number_iterations = 10 and tm = NotArray
      and error_threshold = "- 1" and concensus_threshold = "1/4"]
    ransac_parameter_validation [where number_iterations = 10 and tm = NotArray
      and error_threshold = 4 and concensus_threshold = "3/2"]
  by simp

subsection \<open>Fewer than three poses\<close>

lemma upt_nat_pos: "1 \<le> (n::int) \<Longrightarrow> [0..<nat n] = 0 # [1..<nat n]"
  by (simp add: upt_conv_Cons)

text \<open>
  C10. On an array of shape \<open>N \<times> 4 \<times> 4\<close> with \<open>N < 3\<close> and valid parameters, the RANSAC
  function raises the error of \<^verbatim>\<open>random.sample\<close> in its first iteration, whatever the
  decomposition is (no model is fitted), and that error has none of the four kinds.
\<close>

theorem ransac_fewer_than_three:
  assumes "N < 3" and "1 \<le> number_iterations" and "0 \<le> error_threshold"
    and "0 \<le> concensus_threshold" and "concensus_threshold \<le> 1"
  shows "pivot_calibration_with_ransac svd draws (NDArray [N, 4, 4] fl) number_iterations
           error_threshold concensus_threshold early_exit = Inl SampleLargerThanPopulation
         \<and> kind_of SampleLargerThanPopulation = None"
  using assms
  by (simp add: pivot_calibration_with_ransac_def upt_nat_pos ransac_iteration_def
      draw_and_fit_def random_sample_def)

theorem ransac_fewer_than_three_witness:
  "pivot_calibration_with_ransac half_turn_svd fixed_draws
     (NDArray [2, 4, 4] (take 32 half_turn_poses)) 10 4 (1/4) False
     = Inl SampleLargerThanPopulation"
  using ransac_fewer_than_three [where N = 2 and number_iterations = 10
      and error_threshold = 4 and concensus_threshold = "1/4"] by simp

subsection \<open>The rank estimator\<close>

lemma loop_rank:
  "distinct idx \<Longrightarrow>
   snd (replace_small_values_loop idx t r (xs, k))
     = k + int (length (filter (\<lambda>i. \<not> xs ! i < t) idx))"
proof (induction idx arbitrary: xs k)
  case Nil
  then show ?case by simp
next
  case (Cons i idx)
  have same: "filter (\<lambda>j. \<not> xs[i := r] ! j < t) idx = filter (\<lambda>j. \<not> xs ! j < t) idx"
  proof (rule filter_cong [OF refl])
    fix j assume "j \<in> set idx"
    then have "j \<noteq> i" using Cons.prems by auto
    then show "(\<not> xs[i := r] ! j < t) = (\<not> xs ! j < t)" by simp
  qed
  show ?case
    using Cons.IH [of "xs[i := r]" k] Cons.IH [of xs "k + 1"] Cons.prems same
    by simp
qed

lemma loop_length:
  "length (fst (replace_small_values_loop idx t r (xs, k))) = length xs"
  by (induction idx arbitrary: xs k) simp_all

lemma loop_nth:
  "distinct idx \<Longrightarrow> j < length xs \<Longrightarrow>
   fst (replace_small_values_loop idx t r (xs, k)) ! j
     = (if j \<in> set idx \<and> xs ! j < t then r else xs ! j)"
proof (induction idx arbitrary: xs k)
  case Nil
  then show ?case by simp
next
  case (Cons i idx)
  show ?case
  proof (cases "xs ! i < t")
    case True
    show ?thesis
    proof (cases "j = i")
      case eq: True
      then have "j \<notin> set idx" using Cons.prems by simp
      then show ?thesis
        using Cons.IH [of "xs[i := r]" k] Cons.prems True eq by simp
    next
      case neq: False
      then show ?thesis
        using Cons.IH [of "xs[i := r]" k] Cons.prems True by simp
    qed
  next
    case False
    then show ?thesis
      using Cons.IH [of xs "k + 1"] Cons.prems by auto
  qed
qed

lemma replace_small_values_rank:
  "snd (replace_small_values xs t r) = int (length (filter (\<lambda>v. \<not> v < t) xs))"
proof -
  have "length (filter (\<lambda>i. \<not> xs ! i < t) [0..<length xs])
        = length (filter (\<lambda>v. \<not> v < t) (map ((!) xs) [0..<length xs]))"
    by (simp add: filter_map comp_def)
  then show ?thesis
    by (simp add: replace_small_values_def loop_rank map_nth)
qed

lemma replace_small_values_list:
  "fst (replace_small_values xs t r) = map (\<lambda>v. if v < t then r else v) xs"
  by (rule nth_equalityI) (simp_all add: replace_small_values_def loop_length loop_nth)

lemma nth_concat_uniform:
  "\<forall>ys \<in> set xss. length ys = k \<Longrightarrow> i < length xss \<Longrightarrow> r < k \<Longrightarrow>
   concat xss ! (i * k + r) = xss ! i ! r"
proof (induction xss arbitrary: i)
  case Nil
  then show ?case by simp
next
  case (Cons ys xss)
  show ?case
  proof (cases i)
    case 0
    then show ?thesis using Cons.prems by (simp add: nth_append)
  next
    case (Suc m)
    then show ?thesis
      using Cons.IH [of m] Cons.prems by (simp add: nth_append)
  qed
qed

lemma length_concat_uniform:
  "\<forall>ys \<in> set xss. length ys = k \<Longrightarrow> length (concat xss) = length xss * k"
  by (induction xss) simp_all

lemma aos_cases:
  "pivot_calibration_aos svd [N, 4, 4] fl =
     (if snd (replace_small_values (fst (snd (svd (a_values N fl)))) 0.01 0.0) < 6
      then Inl RankLessThan6
      else Inr (Vec (take 3 (x_values svd N fl)), Vec (take 3 (drop 3 (x_values svd N fl))),
                residual_error_of N fl (x_values svd N fl)))"
  by (simp add: pivot_calibration_aos_def Let_def split: prod.splits)

lemma half_turn_aos:
  "pivot_calibration_aos half_turn_svd [4, 4, 4] half_turn_poses
     = Inr (Vec [1, 2, 3], Vec [10, 20, 30], 0)"
proof -
  have "snd (replace_small_values (fst (snd (half_turn_svd (a_values 4 half_turn_poses)))) 0.01 0.0) = 6"
    by (simp add: replace_small_values_rank half_turn_svd_def)
  moreover have "x_values half_turn_svd 4 half_turn_poses = [1, 2, 3, 10, 20, 30]"
    by (simp add: x_values_def half_turn_svd_def a_values_def a_first_def a_second_def
        b_values_def eye_def half_turn_poses_def elem_def mat_vec_def dot_def diag_def
        upt_rec numeral_nat)
  moreover have "residual_error_of 4 half_turn_poses [1, 2, 3, 10, 20, 30] = 0"
    by (simp add: a_values_def a_first_def a_second_def b_values_def eye_def
        half_turn_poses_def elem_def mat_vec_def dot_def residual_error_of_def vec_sub_def
        sum_squares_def upt_rec numeral_nat)
  ultimately show ?thesis
    by (simp add: aos_cases)
qed


text \<open>
  C1. \<^verbatim>\<open>replace_small_values\<close> with threshold 0.01 replaces the values below 0.01 by 0.0 and
  returns the number of the others. On an array of shape \<open>N \<times> 4 \<times> 4\<close> the solver raises the
  rank error exactly when fewer than 6 singular values of the stacked system are not below
  0.01, returns a result exactly when at least 6 are, and raises nothing else.
\<close>

theorem aos_rank_check:
  "fst (replace_small_values s 0.01 0.0) = map (\<lambda>v. if v < 0.01 then 0.0 else v) s
   \<and> snd (replace_small_values s 0.01 0.0) = int (length (filter (\<lambda>v. \<not> v < 0.01) s))
   \<and> (pivot_calibration_aos svd [N, 4, 4] fl = Inl RankLessThan6
        \<longleftrightarrow> length (filter (\<lambda>v. \<not> v < 0.01) (fst (snd (svd (a_values N fl))))) < 6)
   \<and> ((\<exists>r. pivot_calibration_aos svd [N, 4, 4] fl = Inr r)
        \<longleftrightarrow> \<not> length (filter (\<lambda>v. \<not> v < 0.01) (fst (snd (svd (a_values N fl))))) < 6)
   \<and> (\<forall>e. pivot_calibration_aos svd [N, 4, 4] fl = Inl e
        \<longrightarrow> e = RankLessThan6 \<and> kind_of e = Some DegenerateInputError)"
  by (simp add: aos_cases replace_small_values_rank replace_small_values_list)

theorem aos_rank_check_witness:
  "pivot_calibration_aos half_turn_svd [4, 4, 4] half_turn_poses \<noteq> Inl RankLessThan6
   \<and> pivot_calibration_aos single_pose_svd [1, 4, 4] (take 16 half_turn_poses) = Inl RankLessThan6"
  using aos_rank_check [where svd = half_turn_svd and N = 4 and fl = half_turn_poses and s = "[]"]
    aos_rank_check [where svd = single_pose_svd and N = 1 and fl = "take 16 half_turn_poses" and s = "[]"]
  by (simp add: half_turn_svd_def single_pose_svd_def)

subsection \<open>The blocks of the linear system\<close>

lemma neg_eye3:
  "map (map (\<lambda>v. v * (- 1))) (eye 3) = [[- 1, 0, 0], [0, - 1, 0], [0, 0, - 1 :: real]]"
  by (simp add: eye_def upt_rec numeral_nat)

lemma length_a_first: "length (a_first N fl) = 3 * N"
  unfolding a_first_def
  by (subst length_concat_uniform [where k = 3]) auto

lemma length_a_second: "length (a_second N) = 3 * N"
  unfolding a_second_def neg_eye3
  by (subst length_concat_uniform [where k = 3]) auto

lemma length_a_values: "length (a_values N fl) = 3 * N"
  by (simp add: a_values_def length_a_first length_a_second)

lemma length_b_values: "length (b_values N fl) = 3 * N"
  unfolding b_values_def
  by (subst length_concat_uniform [where k = 3]) auto

lemma a_first_nth:
  assumes "i < N" and "r < 3"
  shows "a_first N fl ! (3 * i + r) = [elem fl i r 0, elem fl i r 1, elem fl i r 2]"
proof -
  have "a_first N fl ! (i * 3 + r)
        = map (\<lambda>i. map (\<lambda>r. map (\<lambda>c. elem fl i r c) [0..<3]) [0..<3]) [0..<N] ! i ! r"
    unfolding a_first_def using assms by (intro nth_concat_uniform) auto
  also have "\<dots> = map (\<lambda>c. elem fl i r c) [0..<3]"
    using assms by simp
  also have "\<dots> = [elem fl i r 0, elem fl i r 1, elem fl i r 2]"
    by (simp add: upt_rec numeral_nat)
  finally show ?thesis by (simp add: mult.commute)
qed

lemma a_second_nth:
  assumes "i < N" and "r < 3"
  shows "a_second N ! (3 * i + r)
         = [if r = 0 then - 1 else 0, if r = 1 then - 1 else 0, if r = 2 then - 1 else 0]"
proof -
  have "a_second N ! (i * 3 + r) = replicate N [[- 1, 0, 0], [0, - 1, 0], [0, 0, - 1 :: real]] ! i ! r"
    unfolding a_second_def neg_eye3 using assms by (intro nth_concat_uniform) auto
  also have "\<dots> = [[- 1, 0, 0], [0, - 1, 0], [0, 0, - 1 :: real]] ! r"
    using assms by simp
  also have "\<dots> = [if r = 0 then - 1 else 0, if r = 1 then - 1 else 0, if r = 2 then - 1 else 0]"
  proof -
    from assms consider "r = 0" | "r = 1" | "r = 2" by linarith
    then show ?thesis by cases simp_all
  qed
  finally show ?thesis by (simp add: mult.commute)
qed

lemma a_values_nth:
  assumes "i < N" and "r < 3"
  shows "a_values N fl ! (3 * i + r)
         = [elem fl i r 0, elem fl i r 1, elem fl i r 2,
            if r = 0 then - 1 else 0, if r = 1 then - 1 else 0, if r = 2 then - 1 else 0]"
proof -
  have "3 * i + r < 3 * N" using assms by linarith
  then show ?thesis
    using assms by (simp add: a_values_def length_a_first length_a_second a_first_nth a_second_nth)
qed

lemma b_values_nth:
  assumes "i < N" and "r < 3"
  shows "b_values N fl ! (3 * i + r) = - elem fl i r 3"
proof -
  have "b_values N fl ! (i * 3 + r)
        = map (\<lambda>i. map (\<lambda>r. elem fl i r 3 * (- 1)) [0..<3]) [0..<N] ! i ! r"
    unfolding b_values_def using assms by (intro nth_concat_uniform) auto
  also have "\<dots> = - elem fl i r 3"
    using assms by simp
  finally show ?thesis by (simp add: mult.commute)
qed

lemma sum_squares_diff:
  assumes "length xs = length ys"
  shows "sum_squares (vec_sub xs ys) = (\<Sum>j<length xs. (xs ! j - ys ! j)\<^sup>2)"
proof -
  have "sum_squares (vec_sub xs ys)
        = (\<Sum>j = 0..<length xs. (xs ! j - ys ! j) * (xs ! j - ys ! j))"
    using assms
    by (simp add: sum_squares_def vec_sub_def sum_list_sum_nth)
  then show ?thesis
    by (simp add: power2_eq_square lessThan_atLeast0)
qed

lemma residual_as_sum:
  "residual_error_of N fl x
   = sqrt ((\<Sum>j<3 * N. (dot (a_values N fl ! j) x - b_values N fl ! j)\<^sup>2) / real (3 * N))"
proof -
  have len: "length (mat_vec (a_values N fl) x) = length (b_values N fl)"
    by (simp add: mat_vec_def length_a_values length_b_values)
  have "sum_squares (vec_sub (mat_vec (a_values N fl) x) (b_values N fl))
        = (\<Sum>j<3 * N. (mat_vec (a_values N fl) x ! j - b_values N fl ! j)\<^sup>2)"
    using sum_squares_diff [OF len] by (simp add: mat_vec_def length_a_values)
  also have "\<dots> = (\<Sum>j<3 * N. (dot (a_values N fl ! j) x - b_values N fl ! j)\<^sup>2)"
    by (rule sum.cong) (simp_all add: mat_vec_def length_a_values)
  finally show ?thesis
    by (simp add: residual_error_of_def mult.commute)
qed


subsection \<open>The dispatcher\<close>

text \<open>
  C5. On poses that pass the shape check, \<^verbatim>\<open>pivot_calibration\<close> runs the one-step solver
  when there is no configuration and when the method is absent or \<^verbatim>\<open>'aos'\<close>, whatever the
  other keys hold; runs the RANSAC function when the method is \<^verbatim>\<open>'ransac'\<close>, with 10, 4, 0.25
  and False for the keys that are absent; and raises a ConfigError carrying the method for
  any other method.
\<close>

theorem dispatcher_routing:
  assumes "shape_check tm = Inr (sh, fl)"
  shows "pivot_calibration svd draws tm None = pivot_calibration_aos svd sh fl
     \<and> (cfg_method cfg = None \<or> cfg_method cfg = Some ''aos'' \<longrightarrow>
          pivot_calibration svd draws tm (Some cfg) = pivot_calibration_aos svd sh fl)
     \<and> (cfg_method cfg = Some ''ransac'' \<longrightarrow>
          pivot_calibration svd draws tm (Some cfg)
            = pivot_calibration_with_ransac svd draws tm
                (case cfg_number_iterations cfg of None \<Rightarrow> 10 | Some n \<Rightarrow> n)
                (case cfg_error_threshold cfg of None \<Rightarrow> 4 | Some e \<Rightarrow> e)
                (case cfg_consensus_threshold cfg of None \<Rightarrow> 1 / 4 | Some c \<Rightarrow> c)
                (case cfg_early_exit cfg of None \<Rightarrow> False | Some x \<Rightarrow> x))
     \<and> (\<forall>m. cfg_method cfg = Some m \<and> m \<noteq> ''aos'' \<and> m \<noteq> ''ransac'' \<longrightarrow>
          pivot_calibration svd draws tm (Some cfg) = Inl (UnknownMethod m)
          \<and> kind_of (UnknownMethod m) = Some ConfigError)"
  using assms by (auto simp: pivot_calibration_def get_or_def Let_def)

theorem dispatcher_routing_witness:
  "pivot_calibration half_turn_svd fixed_draws (NDArray [4, 4, 4] half_turn_poses)
     (Some \<lparr> cfg_method = Some ''aos'', cfg_number_iterations = Some 0,
             cfg_error_threshold = None, cfg_consensus_threshold = None,
             cfg_early_exit = None \<rparr>)
     = pivot_calibration_aos half_turn_svd [4, 4, 4] half_turn_poses
   \<and> pivot_calibration half_turn_svd fixed_draws (NDArray [4, 4, 4] half_turn_poses)
     (Some \<lparr> cfg_method = Some ''ransac'', cfg_number_iterations = None,
             cfg_error_threshold = None, cfg_consensus_threshold = None,
             cfg_early_exit = None \<rparr>)
     = pivot_calibration_with_ransac half_turn_svd fixed_draws
         (NDArray [4, 4, 4] half_turn_poses) 10 4 (1 / 4) False
   \<and> pivot_calibration half_turn_svd fixed_draws (NDArray [4, 4, 4] half_turn_poses)
     (Some \<lparr> cfg_method = Some ''svd'', cfg_number_iterations = None,
             cfg_error_threshold = None, cfg_consensus_threshold = None,
             cfg_early_exit = None \<rparr>)
     = Inl (UnknownMethod ''svd'')"
proof -
  have ok: "shape_check (NDArray [4, 4, 4] half_turn_poses) = Inr ([4, 4, 4], half_turn_poses)"
    by (simp add: shape_check_def)
  show ?thesis
    using dispatcher_routing [OF ok, where cfg = "\<lparr> cfg_method = Some ''aos'',
        cfg_number_iterations = Some 0, cfg_error_threshold = None,
        cfg_consensus_threshold = None, cfg_early_exit = None \<rparr>"]
      dispatcher_routing [OF ok, where cfg = "\<lparr> cfg_method = Some ''ransac'',
        cfg_number_iterations = None, cfg_error_threshold = None,
        cfg_consensus_threshold = None, cfg_early_exit = None \<rparr>"]
      dispatcher_routing [OF ok, where cfg = "\<lparr> cfg_method = Some ''svd'',
        cfg_number_iterations = None, cfg_error_threshold = None,
        cfg_consensus_threshold = None, cfg_early_exit = None \<rparr>"]
    by simp
qed

subsection \<open>The concrete decompositions\<close>

lemmas ev = a_values_def a_first_def a_second_def b_values_def eye_def elem_def mat_vec_def
  dot_def diag_def gram_def decomposes_def upt_rec numeral_nat transpose.simps

lemma half_turn_decomposes:
  "decomposes (a_values 4 half_turn_poses) (half_turn_svd (a_values 4 half_turn_poses))"
  by (simp add: ev half_turn_svd_def half_turn_poses_def)

lemma single_pose_decomposes:
  "decomposes (a_values 1 (take 16 half_turn_poses))
     (single_pose_svd (a_values 1 (take 16 half_turn_poses)))"
  by (simp add: ev single_pose_svd_def half_turn_poses_def)

lemma trio_decomposes:
  "decomposes (a_values 3 skewed_poses) (trio_u, trio_s, trio_vh)"
  by (simp add: ev trio_u_def trio_s_def trio_vh_def skewed_poses_def)

lemma sqrt_2_3: "sqrt 2 * sqrt 3 = sqrt 6"
  by (simp add: real_sqrt_mult [symmetric])

lemma identical_decomposes:
  "decomposes (a_values 3 identical_poses) (identical_svd (a_values 3 identical_poses))"
  by (simp add: ev identical_svd_def identical_u_def identical_s_def identical_vh_def
      identical_poses_def sqrt_2_3)

lemma near_singular_decomposes:
  "decomposes (a_values 2 near_singular_poses)
     (near_singular_svd (a_values 2 near_singular_poses))"
  by (simp add: ev near_singular_svd_def near_singular_u_def near_singular_s_def
      near_singular_vh_def near_singular_poses_def)

subsection \<open>The RANSAC loop\<close>

lemma aos_error:
  "pivot_calibration_aos svd sh fl = Inl e \<Longrightarrow> e = CannotReshape \<or> e = RankLessThan6"
  by (auto simp: pivot_calibration_aos_def Let_def split: if_splits prod.splits)

lemma aos_vec:
  "pivot_calibration_aos svd sh fl = Inr (po, pl, re) \<Longrightarrow> po \<noteq> PyNone \<and> pl \<noteq> PyNone"
  by (auto simp: pivot_calibration_aos_def Let_def split: if_splits prod.splits)

lemma shape_check_error:
  "shape_check tm = Inl e \<Longrightarrow>
   e = NotNumpyArray \<or> e = TupleIndexOutOfRange \<or> e = Not4Rows \<or> e = Not4Columns"
  by (auto simp: shape_check_def split: pyobj.splits if_splits)

lemma none_error:
  assumes "pivot_calibration_none svd tm = Inl e"
  shows "e \<noteq> NoModelFound"
proof (cases "shape_check tm")
  case (Inl e')
  then show ?thesis
    using assms shape_check_error [of tm e'] by (auto simp: pivot_calibration_none_def)
next
  case (Inr p)
  then show ?thesis
    using assms aos_error [of svd "fst p" "snd p" e]
    by (auto simp: pivot_calibration_none_def split: prod.splits)
qed

lemma none_vec:
  "pivot_calibration_none svd tm = Inr (po, pl, re) \<Longrightarrow> po \<noteq> PyNone"
  by (auto simp: pivot_calibration_none_def dest: aos_vec split: sum.splits prod.splits)

lemma refit_error: "refit svd sh fl inl = Inl e \<Longrightarrow> e \<noteq> NoModelFound"
  by (auto simp: refit_def fancy_index_def dest: none_error
      split: sum.splits list.splits if_splits)

lemma refit_vec: "refit svd sh fl inl = Inr (po, pl, re) \<Longrightarrow> po \<noteq> PyNone"
  by (auto simp: refit_def dest: none_vec split: sum.splits)

lemma fit_sample_error: "fit_sample svd sample = Inl e \<Longrightarrow> e \<noteq> NoModelFound"
  by (auto simp: fit_sample_def dest: none_error split: sum.splits if_splits)

lemma draw_and_fit_error: "draw_and_fit svd draws sh fl i = Inl e \<Longrightarrow> e \<noteq> NoModelFound"
  by (auto simp: draw_and_fit_def random_sample_def fancy_index_def dest: fit_sample_error
      split: sum.splits list.splits if_splits)

lemma draw_and_fit_population:
  "draw_and_fit svd draws sh fl i = Inr r \<Longrightarrow> 3 \<le> hd sh"
  by (auto simp: draw_and_fit_def random_sample_def split: if_splits)

lemma count_inliers_filter:
  "count_inliers fl po pl et ks (n, idx)
   = (n + int (length (filter (\<lambda>k. pose_distance fl po pl k < et) ks)),
      idx @ filter (\<lambda>k. pose_distance fl po pl k < et) ks)"
  by (induction ks arbitrary: n idx) simp_all

lemma score_raise:
  "score_and_update svd sh fl et ct ee st model = Raise e \<Longrightarrow> e \<noteq> NoModelFound"
  by (auto simp: score_and_update_def Let_def dest: refit_error
      split: prod.splits if_splits sum.splits)

lemma iteration_raise:
  "ransac_iteration svd draws sh fl et ct ee st i = Raise e \<Longrightarrow> e \<noteq> NoModelFound"
  by (auto simp: ransac_iteration_def dest: draw_and_fit_error score_raise
      split: sum.splits option.splits)

lemma score_best:
  "best_pointer_offset st \<noteq> PyNone \<Longrightarrow>
   score_and_update svd sh fl et ct ee st model = Continue st' \<Longrightarrow>
   best_pointer_offset st' \<noteq> PyNone"
  by (auto simp: score_and_update_def Let_def dest: refit_vec
      split: prod.splits if_splits sum.splits)

lemma iteration_best:
  "best_pointer_offset st \<noteq> PyNone \<Longrightarrow>
   ransac_iteration svd draws sh fl et ct ee st i = Continue st' \<Longrightarrow>
   best_pointer_offset st' \<noteq> PyNone"
  by (auto simp: ransac_iteration_def dest: score_best split: sum.splits option.splits)

lemma loop_best:
  "best_pointer_offset st \<noteq> PyNone \<Longrightarrow>
   ransac_loop svd draws sh fl et ct ee iters st \<noteq> Inl NoModelFound"
proof (induction iters arbitrary: st)
  case Nil
  then show ?case by simp
next
  case (Cons i iters)
  show ?case
  proof (cases "ransac_iteration svd draws sh fl et ct ee st i")
    case (Continue st')
    then show ?thesis
      using Cons.IH [of st'] iteration_best [OF Cons.prems Continue] by simp
  next
    case (Return m)
    then show ?thesis by simp
  next
    case (Raise e)
    then show ?thesis using iteration_raise [OF Raise] by simp
  qed
qed

lemma score_cases:
  assumes "0 < N"
  shows "score_and_update svd [N, 4, 4] fl et ct ee st (po, pl, re) =
     (if real (length (filter (\<lambda>k. pose_distance fl (vec_of po) (vec_of pl) k < et) [0..<N]))
           / real N > ct
      then
        (if int (length (filter (\<lambda>k. pose_distance fl (vec_of po) (vec_of pl) k < et) [0..<N]))
              > highest_number_of_inliers st
         then
           (case refit svd [N, 4, 4] fl
                   (filter (\<lambda>k. pose_distance fl (vec_of po) (vec_of pl) k < et) [0..<N]) of
              Inl e \<Rightarrow> Raise e
            | Inr (po', pl', re') \<Rightarrow>
                if ee then Return (po', pl', re')
                else Continue (st \<lparr> highest_number_of_inliers :=
                    int (length (filter (\<lambda>k. pose_distance fl (vec_of po) (vec_of pl) k < et)
                                   [0..<N])),
                  best_pointer_offset := po', best_pivot_location := pl',
                  best_residual_error := re' \<rparr>))
         else if ee
           then Return (best_pointer_offset st, best_pivot_location st, best_residual_error st)
           else Continue st)
      else Continue st)"
  using assms
  by (simp add: score_and_update_def count_inliers_filter Let_def split: sum.splits prod.splits)

lemma inliers_at_fit:
  assumes "draw_and_fit svd draws sh fl i = Inr (Some (po, pl, re))"
  shows "inliers_at svd draws sh fl et i
         = Some (filter (\<lambda>k. pose_distance fl (vec_of po) (vec_of pl) k < et) [0..<hd sh])"
  using assms by (simp add: inliers_at_def count_inliers_filter)

lemma iteration_cases:
  "ransac_iteration svd draws [N, 4, 4] fl et ct ee st i =
     (case draw_and_fit svd draws [N, 4, 4] fl i of
        Inl e \<Rightarrow> Raise e
      | Inr None \<Rightarrow> Continue (st \<lparr> printed_failed := printed_failed st @ [i] \<rparr>)
      | Inr (Some model) \<Rightarrow>
          if consensus_at svd draws [N, 4, 4] fl et ct i
          then
            (if int (length (the (inliers_at svd draws [N, 4, 4] fl et i)))
                  > highest_number_of_inliers st
             then
               (case refit svd [N, 4, 4] fl (the (inliers_at svd draws [N, 4, 4] fl et i)) of
                  Inl e \<Rightarrow> Raise e
                | Inr (po', pl', re') \<Rightarrow>
                    if ee then Return (po', pl', re')
                    else Continue (st \<lparr> highest_number_of_inliers :=
                        int (length (the (inliers_at svd draws [N, 4, 4] fl et i))),
                      best_pointer_offset := po', best_pivot_location := pl',
                      best_residual_error := re' \<rparr>))
             else if ee
               then Return (best_pointer_offset st, best_pivot_location st, best_residual_error st)
               else Continue st)
          else Continue st)"
proof (cases "draw_and_fit svd draws [N, 4, 4] fl i")
  case (Inl e)
  then show ?thesis by (simp add: ransac_iteration_def)
next
  case (Inr r)
  show ?thesis
  proof (cases r)
    case None
    then show ?thesis using Inr by (simp add: ransac_iteration_def)
  next
    case (Some model)
    obtain po pl re where model: "model = (po, pl, re)" by (cases model) auto
    have fit: "draw_and_fit svd draws [N, 4, 4] fl i = Inr (Some (po, pl, re))"
      using Inr Some model by simp
    have pos: "0 < N" using draw_and_fit_population [OF fit] by simp
    show ?thesis
      using fit
      by (simp add: ransac_iteration_def score_cases [OF pos] consensus_at_def
          inliers_at_fit [OF fit] split: sum.splits prod.splits)
  qed
qed

lemma consensus_fit:
  assumes "consensus_at svd draws sh fl et ct i"
  shows "\<exists>model. draw_and_fit svd draws sh fl i = Inr (Some model)"
  using assms
  by (auto simp: consensus_at_def inliers_at_def split: sum.splits option.splits)

lemma quiet_step:
  assumes "quiet_at svd draws [N, 4, 4] fl et ct i"
  shows "\<exists>log. ransac_iteration svd draws [N, 4, 4] fl et ct ee st i
                = Continue (st \<lparr> printed_failed := log \<rparr>)"
proof (cases "draw_and_fit svd draws [N, 4, 4] fl i")
  case (Inl e)
  then show ?thesis using assms by (simp add: quiet_at_def)
next
  case (Inr r)
  then have nc: "\<not> consensus_at svd draws [N, 4, 4] fl et ct i"
    using assms by (simp add: quiet_at_def)
  show ?thesis
  proof (cases r)
    case None
    have "ransac_iteration svd draws [N, 4, 4] fl et ct ee st i
          = Continue (st \<lparr> printed_failed := printed_failed st @ [i] \<rparr>)"
      using Inr None by (simp add: iteration_cases)
    then show ?thesis by blast
  next
    case (Some model)
    have "ransac_iteration svd draws [N, 4, 4] fl et ct ee st i
          = Continue (st \<lparr> printed_failed := printed_failed st \<rparr>)"
      using Inr Some nc by (simp add: iteration_cases)
    then show ?thesis by blast
  qed
qed

lemma consensus_step_fresh:
  assumes "consensus_at svd draws [N, 4, 4] fl et ct i"
    and "highest_number_of_inliers st < 0"
  shows "ransac_iteration svd draws [N, 4, 4] fl et ct ee st i =
     (case refit svd [N, 4, 4] fl (the (inliers_at svd draws [N, 4, 4] fl et i)) of
        Inl e \<Rightarrow> Raise e
      | Inr (po', pl', re') \<Rightarrow>
          if ee then Return (po', pl', re')
          else Continue (st \<lparr> highest_number_of_inliers :=
                int (length (the (inliers_at svd draws [N, 4, 4] fl et i))),
              best_pointer_offset := po', best_pivot_location := pl',
              best_residual_error := re' \<rparr>))"
proof -
  obtain model where "draw_and_fit svd draws [N, 4, 4] fl i = Inr (Some model)"
    using consensus_fit [OF assms(1)] by blast
  moreover have "highest_number_of_inliers st
                 < int (length (the (inliers_at svd draws [N, 4, 4] fl et i)))"
    using assms(2) by linarith
  ultimately show ?thesis
    using assms(1) by (simp add: iteration_cases)
qed

lemma loop_no_model:
  assumes "best_pointer_offset st = PyNone" and "highest_number_of_inliers st = - 1"
  shows "ransac_loop svd draws [N, 4, 4] fl et ct ee iters st = Inl NoModelFound
         \<longleftrightarrow> (\<forall>i \<in> set iters. quiet_at svd draws [N, 4, 4] fl et ct i)"
  using assms
proof (induction iters arbitrary: st)
  case Nil
  then show ?case by simp
next
  case (Cons i iters)
  show ?case
  proof (cases "quiet_at svd draws [N, 4, 4] fl et ct i")
    case True
    obtain log where step: "ransac_iteration svd draws [N, 4, 4] fl et ct ee st i
        = Continue (st \<lparr> printed_failed := log \<rparr>)"
      using quiet_step [OF True] by blast
    show ?thesis
      using Cons.IH [of "st \<lparr> printed_failed := log \<rparr>"] Cons.prems step True by simp
  next
    case False
    have "ransac_loop svd draws [N, 4, 4] fl et ct ee (i # iters) st \<noteq> Inl NoModelFound"
    proof (cases "draw_and_fit svd draws [N, 4, 4] fl i")
      case (Inl e)
      then show ?thesis
        using draw_and_fit_error [OF Inl] by (simp add: iteration_cases)
    next
      case (Inr r)
      then have cons: "consensus_at svd draws [N, 4, 4] fl et ct i"
        using False by (simp add: quiet_at_def)
      have fresh: "highest_number_of_inliers st < 0" using Cons.prems by simp
      show ?thesis
      proof (cases "refit svd [N, 4, 4] fl (the (inliers_at svd draws [N, 4, 4] fl et i))")
        case (Inl e)
        then show ?thesis
          using refit_error [OF Inl] by (simp add: consensus_step_fresh [OF cons fresh])
      next
        case (Inr m)
        obtain po pl re where m: "m = (po, pl, re)" by (cases m) auto
        have "po \<noteq> PyNone" using Inr m refit_vec by blast
        then show ?thesis
          using Inr m loop_best [where st = "st \<lparr> highest_number_of_inliers :=
                int (length (the (inliers_at svd draws [N, 4, 4] fl et i))),
              best_pointer_offset := po, best_pivot_location := pl,
              best_residual_error := re \<rparr>"]
          by (simp add: consensus_step_fresh [OF cons fresh])
      qed
    qed
    then show ?thesis using False by simp
  qed
qed

lemma loop_early_exit:
  assumes "highest_number_of_inliers st < 0"
    and "\<forall>j \<in> set pre. quiet_at svd draws [N, 4, 4] fl et ct j"
    and "consensus_at svd draws [N, 4, 4] fl et ct i"
  shows "ransac_loop svd draws [N, 4, 4] fl et ct True (pre @ i # post) st
         = refit svd [N, 4, 4] fl (the (inliers_at svd draws [N, 4, 4] fl et i))"
  using assms(1,2)
proof (induction pre arbitrary: st)
  case Nil
  show ?case
    using consensus_step_fresh [OF assms(3) Nil(1), where ee = True]
    by (simp split: sum.splits)
next
  case (Cons j pre)
  have q: "quiet_at svd draws [N, 4, 4] fl et ct j" using Cons.prems by simp
  obtain log where step: "ransac_iteration svd draws [N, 4, 4] fl et ct True st j
      = Continue (st \<lparr> printed_failed := log \<rparr>)"
    using quiet_step [OF q] by blast
  show ?case
    using Cons.IH [of "st \<lparr> printed_failed := log \<rparr>"] Cons.prems step by simp
qed

lemma votes_length:
  "consensus_at svd draws sh fl et ct i \<Longrightarrow>
   length (the (inliers_at svd draws sh fl et i)) = votes_at svd draws sh fl et i"
  by (auto simp: consensus_at_def votes_at_def split: option.splits)

lemma is_best_skip:
  assumes "is_best svd draws sh fl et ct k i"
    and "\<not> consensus_at svd draws sh fl et ct k"
  shows "is_best svd draws sh fl et ct (Suc k) i"
  using assms by (auto simp: is_best_def less_Suc_eq)

lemma is_best_keep:
  assumes "is_best svd draws sh fl et ct k i"
    and "votes_at svd draws sh fl et k \<le> votes_at svd draws sh fl et i"
  shows "is_best svd draws sh fl et ct (Suc k) i"
  using assms by (auto simp: is_best_def less_Suc_eq)

lemma is_best_new_first:
  assumes "\<forall>j<k. \<not> consensus_at svd draws sh fl et ct j"
    and "consensus_at svd draws sh fl et ct k"
  shows "is_best svd draws sh fl et ct (Suc k) k"
  using assms by (auto simp: is_best_def less_Suc_eq)

lemma is_best_new:
  assumes "is_best svd draws sh fl et ct k i"
    and "consensus_at svd draws sh fl et ct k"
    and "votes_at svd draws sh fl et i < votes_at svd draws sh fl et k"
  shows "is_best svd draws sh fl et ct (Suc k) k"
  unfolding is_best_def
proof (intro conjI allI impI)
  show "k < Suc k" by simp
  show "consensus_at svd draws sh fl et ct k" by fact
next
  fix j assume "j < Suc k" and c: "consensus_at svd draws sh fl et ct j"
  then consider "j = k" | "j < k" by linarith
  then show "votes_at svd draws sh fl et j \<le> votes_at svd draws sh fl et k"
  proof cases
    case 1
    then show ?thesis by simp
  next
    case 2
    then have "votes_at svd draws sh fl et j \<le> votes_at svd draws sh fl et i"
      using assms(1) c by (simp add: is_best_def)
    then show ?thesis using assms(3) by linarith
  qed
next
  fix j assume "j < k" and c: "consensus_at svd draws sh fl et ct j"
  then have "votes_at svd draws sh fl et j \<le> votes_at svd draws sh fl et i"
    using assms(1) by (simp add: is_best_def)
  then show "votes_at svd draws sh fl et j < votes_at svd draws sh fl et k"
    using assms(3) by linarith
qed

lemma loop_best_model:
  assumes "k \<le> n"
    and "(best_pointer_offset st = PyNone \<and> highest_number_of_inliers st = - 1
           \<and> (\<forall>j<k. \<not> consensus_at svd draws [N, 4, 4] fl et ct j))
         \<or> (\<exists>i. is_best svd draws [N, 4, 4] fl et ct k i
                \<and> refit svd [N, 4, 4] fl (the (inliers_at svd draws [N, 4, 4] fl et i))
                    = Inr (best_pointer_offset st, best_pivot_location st, best_residual_error st)
                \<and> highest_number_of_inliers st = int (votes_at svd draws [N, 4, 4] fl et i))"
    and "ransac_loop svd draws [N, 4, 4] fl et ct False [k..<n] st = Inr m"
  shows "\<exists>i. is_best svd draws [N, 4, 4] fl et ct n i
             \<and> refit svd [N, 4, 4] fl (the (inliers_at svd draws [N, 4, 4] fl et i)) = Inr m"
  using assms
proof (induction "n - k" arbitrary: k st)
  case 0
  then have kn: "k = n" by simp
  from 0(4) kn have notnone: "best_pointer_offset st \<noteq> PyNone"
    and m: "m = (best_pointer_offset st, best_pivot_location st, best_residual_error st)"
    by (auto split: if_splits)
  from 0(3) notnone kn m show ?case by auto
next
  case (Suc d)
  then have lt: "k < n" by simp
  then have unfold: "[k..<n] = k # [Suc k..<n]" by (simp add: upt_conv_Cons)
  let ?step = "ransac_iteration svd draws [N, 4, 4] fl et ct False st k"
  let ?inl = "the (inliers_at svd draws [N, 4, 4] fl et k)"
  let ?cons = "consensus_at svd draws [N, 4, 4] fl et ct k"
  have run: "(case ?step of Raise e \<Rightarrow> Inl e | Return model \<Rightarrow> Inr model
      | Continue st' \<Rightarrow> ransac_loop svd draws [N, 4, 4] fl et ct False [Suc k..<n] st') = Inr m"
    using Suc.prems(3) unfold by simp
  have d: "d = n - Suc k" using Suc.hyps(2) by simp
  have le: "Suc k \<le> n" using lt by simp
  show ?case
  proof (cases ?cons)
    case False
    obtain log where step: "?step = Continue (st \<lparr> printed_failed := log \<rparr>)"
    proof (cases "draw_and_fit svd draws [N, 4, 4] fl k")
      case (Inl e)
      then show ?thesis using run by (simp add: iteration_cases)
    next
      case (Inr r)
      then have "quiet_at svd draws [N, 4, 4] fl et ct k"
        using False by (simp add: quiet_at_def)
      from quiet_step [OF this] show ?thesis using that by blast
    qed
    have inv: "(best_pointer_offset (st \<lparr> printed_failed := log \<rparr>) = PyNone
           \<and> highest_number_of_inliers (st \<lparr> printed_failed := log \<rparr>) = - 1
           \<and> (\<forall>j<Suc k. \<not> consensus_at svd draws [N, 4, 4] fl et ct j))
         \<or> (\<exists>i. is_best svd draws [N, 4, 4] fl et ct (Suc k) i
                \<and> refit svd [N, 4, 4] fl (the (inliers_at svd draws [N, 4, 4] fl et i))
                    = Inr (best_pointer_offset (st \<lparr> printed_failed := log \<rparr>),
                           best_pivot_location (st \<lparr> printed_failed := log \<rparr>),
                           best_residual_error (st \<lparr> printed_failed := log \<rparr>))
                \<and> highest_number_of_inliers (st \<lparr> printed_failed := log \<rparr>)
                    = int (votes_at svd draws [N, 4, 4] fl et i))"
      using Suc.prems(2) False is_best_skip [OF _ False]
      by (auto simp: less_Suc_eq)
    show ?thesis
      using Suc.hyps(1) [OF d le inv] run step by simp
  next
    case True
    note votes = votes_length [OF True]
    show ?thesis
    proof (cases "int (votes_at svd draws [N, 4, 4] fl et k) > highest_number_of_inliers st")
      case higher: True
      obtain model where fit: "draw_and_fit svd draws [N, 4, 4] fl k = Inr (Some model)"
        using consensus_fit [OF True] by blast
      have step: "?step = (case refit svd [N, 4, 4] fl ?inl of
            Inl e \<Rightarrow> Raise e
          | Inr (po', pl', re') \<Rightarrow>
              Continue (st \<lparr> highest_number_of_inliers := int (length ?inl),
                best_pointer_offset := po', best_pivot_location := pl',
                best_residual_error := re' \<rparr>))"
        using fit True higher votes
        by (simp add: iteration_cases split: sum.splits prod.splits)
      obtain po pl re where re: "refit svd [N, 4, 4] fl ?inl = Inr (po, pl, re)"
        using run step by (cases "refit svd [N, 4, 4] fl ?inl") auto
      let ?st' = "st \<lparr> highest_number_of_inliers := int (length ?inl),
                best_pointer_offset := po, best_pivot_location := pl,
                best_residual_error := re \<rparr>"
      have best: "is_best svd draws [N, 4, 4] fl et ct (Suc k) k"
        using Suc.prems(2)
      proof
        assume "best_pointer_offset st = PyNone \<and> highest_number_of_inliers st = - 1
           \<and> (\<forall>j<k. \<not> consensus_at svd draws [N, 4, 4] fl et ct j)"
        then show ?thesis using is_best_new_first [OF _ True] by blast
      next
        assume "\<exists>i. is_best svd draws [N, 4, 4] fl et ct k i
                \<and> refit svd [N, 4, 4] fl (the (inliers_at svd draws [N, 4, 4] fl et i))
                    = Inr (best_pointer_offset st, best_pivot_location st, best_residual_error st)
                \<and> highest_number_of_inliers st = int (votes_at svd draws [N, 4, 4] fl et i)"
        then obtain i where i: "is_best svd draws [N, 4, 4] fl et ct k i"
          and hi: "highest_number_of_inliers st = int (votes_at svd draws [N, 4, 4] fl et i)"
          by blast
        have "votes_at svd draws [N, 4, 4] fl et i < votes_at svd draws [N, 4, 4] fl et k"
          using higher hi by linarith
        then show ?thesis using is_best_new [OF i True] by blast
      qed
      have inv: "(best_pointer_offset ?st' = PyNone \<and> highest_number_of_inliers ?st' = - 1
           \<and> (\<forall>j<Suc k. \<not> consensus_at svd draws [N, 4, 4] fl et ct j))
         \<or> (\<exists>i. is_best svd draws [N, 4, 4] fl et ct (Suc k) i
                \<and> refit svd [N, 4, 4] fl (the (inliers_at svd draws [N, 4, 4] fl et i))
                    = Inr (best_pointer_offset ?st', best_pivot_location ?st',
                           best_residual_error ?st')
                \<and> highest_number_of_inliers ?st'
                    = int (votes_at svd draws [N, 4, 4] fl et i))"
        using best re votes by auto
      show ?thesis
        using Suc.hyps(1) [OF d le inv] run step re by simp
    next
      case lower: False
      obtain model where fit: "draw_and_fit svd draws [N, 4, 4] fl k = Inr (Some model)"
        using consensus_fit [OF True] by blast
      have step: "?step = Continue st"
        using fit True lower votes by (simp add: iteration_cases)
      have "highest_number_of_inliers st \<noteq> - 1" using lower by linarith
      then obtain i where i: "is_best svd draws [N, 4, 4] fl et ct k i"
        and r: "refit svd [N, 4, 4] fl (the (inliers_at svd draws [N, 4, 4] fl et i))
                = Inr (best_pointer_offset st, best_pivot_location st, best_residual_error st)"
        and hi: "highest_number_of_inliers st = int (votes_at svd draws [N, 4, 4] fl et i)"
        using Suc.prems(2) by blast
      have "votes_at svd draws [N, 4, 4] fl et k \<le> votes_at svd draws [N, 4, 4] fl et i"
        using lower hi by linarith
      then have "is_best svd draws [N, 4, 4] fl et ct (Suc k) i"
        using is_best_keep [OF i] by blast
      then have inv: "(best_pointer_offset st = PyNone \<and> highest_number_of_inliers st = - 1
           \<and> (\<forall>j<Suc k. \<not> consensus_at svd draws [N, 4, 4] fl et ct j))
         \<or> (\<exists>i. is_best svd draws [N, 4, 4] fl et ct (Suc k) i
                \<and> refit svd [N, 4, 4] fl (the (inliers_at svd draws [N, 4, 4] fl et i))
                    = Inr (best_pointer_offset st, best_pivot_location st, best_residual_error st)
                \<and> highest_number_of_inliers st = int (votes_at svd draws [N, 4, 4] fl et i))"
        using r hi by blast
      show ?thesis
        using Suc.hyps(1) [OF d le inv] run step by simp
    qed
  qed
qed

subsection \<open>A run in which the fit on the inliers fails\<close>

lemma sqrt_2_not_small: "\<not> sqrt 2 * 100 < 1"
proof -
  have "1 \<le> sqrt 2" by simp
  then show ?thesis by linarith
qed

lemma sqrt_6_not_small: "\<not> sqrt 6 * 100 < 1"
proof -
  have "1 \<le> sqrt 6" by simp
  then show ?thesis by linarith
qed

lemma sqrt_25: "sqrt 25 = 5"
  using real_sqrt_abs [of 5] by simp

lemma none_aos:
  "pivot_calibration_none svd (NDArray [N, 4, 4] fl) = pivot_calibration_aos svd [N, 4, 4] fl"
  by (simp add: pivot_calibration_none_def shape_check_def)

lemma skewed_x: "x_values example_svd 3 skewed_poses = [- 3 / 2, 2, 3, 25 / 2, 20, 30]"
  by (simp add: x_values_def example_svd_def trio_u_def trio_s_def trio_vh_def ev skewed_poses_def)

lemma skewed_rank:
  "snd (replace_small_values (fst (snd (example_svd (a_values 3 skewed_poses)))) (1 / 100) 0) = 6"
  by (simp add: replace_small_values_rank example_svd_def length_a_values trio_s_def
      sqrt_2_not_small)

lemma skewed_fit:
  "draw_and_fit example_svd fixed_draws [3, 4, 4] skewed_poses i
   = Inr (Some (Vec [- 3 / 2, 2, 3], Vec [25 / 2, 20, 30],
                residual_error_of 3 skewed_poses [- 3 / 2, 2, 3, 25 / 2, 20, 30]))"
proof -
  have "fancy_index [3, 4, 4] skewed_poses [0, 1, 2] = Inr (NDArray [3, 4, 4] skewed_poses)"
    by (simp add: fancy_index_def skewed_poses_def)
  then show ?thesis
    by (simp add: draw_and_fit_def random_sample_def fixed_draws_def fit_sample_def none_aos
        aos_cases skewed_rank skewed_x)
qed

lemma skewed_inliers:
  "inliers_at example_svd fixed_draws [3, 4, 4] skewed_poses 4 i = Some [1]"
  by (subst inliers_at_fit [OF skewed_fit])
    (simp add: vec_of_def pose_distance_def pose_def vec_sub_def sum_squares_def ev
      skewed_poses_def sqrt_25)

lemma skewed_refit:
  "refit example_svd [3, 4, 4] skewed_poses [1] = Inl RankLessThan6"
proof -
  have "fancy_index [3, 4, 4] skewed_poses [1]
        = Inr (NDArray [1, 4, 4] (take 16 (drop 16 skewed_poses)))"
    by (simp add: fancy_index_def)
  moreover have "snd (replace_small_values (fst (snd (example_svd
      (a_values 1 (take 16 (drop 16 skewed_poses)))))) (1 / 100) 0) < 6"
    by (simp add: replace_small_values_rank example_svd_def length_a_values single_pose_svd_def
        sqrt_2_not_small)
  ultimately show ?thesis
    by (simp add: refit_def none_aos aos_cases)
qed


subsection \<open>A run on the four poses\<close>

lemma upt_split: "i < n \<Longrightarrow> [0..<n] = [0..<i] @ i # [Suc i..<n]"
  by (metis less_imp_le_nat upt_add_eq_append upt_conv_Cons le0 le_add_diff_inverse plus_nat.add_0)

lemma half_turn_sample_x:
  "x_values example_svd 3 (take 48 half_turn_poses) = [1, 2, 3, 10, 20, 30]"
  by (simp add: x_values_def example_svd_def trio_u_def trio_s_def trio_vh_def ev
      half_turn_poses_def)

lemma half_turn_sample_rank:
  "snd (replace_small_values
     (fst (snd (example_svd (a_values 3 (take 48 half_turn_poses))))) (1 / 100) 0) = 6"
  by (simp add: replace_small_values_rank example_svd_def length_a_values trio_s_def
      sqrt_2_not_small)

lemma half_turn_sample_residual:
  "residual_error_of 3 (take 48 half_turn_poses) [1, 2, 3, 10, 20, 30] = 0"
  by (simp add: residual_error_of_def vec_sub_def sum_squares_def ev half_turn_poses_def)

lemma half_turn_fit:
  "draw_and_fit example_svd fixed_draws [4, 4, 4] half_turn_poses i
   = Inr (Some (Vec [1, 2, 3], Vec [10, 20, 30], 0))"
proof -
  have "fancy_index [4, 4, 4] half_turn_poses [0, 1, 2]
        = Inr (NDArray [3, 4, 4] (take 48 half_turn_poses))"
    by (simp add: fancy_index_def half_turn_poses_def)
  then show ?thesis
    by (simp add: draw_and_fit_def random_sample_def fixed_draws_def fit_sample_def none_aos
        aos_cases half_turn_sample_rank half_turn_sample_x half_turn_sample_residual)
qed

lemma half_turn_inliers:
  "inliers_at example_svd fixed_draws [4, 4, 4] half_turn_poses 4 i = Some [0, 1, 2, 3]"
  by (subst inliers_at_fit [OF half_turn_fit])
    (simp add: vec_of_def pose_distance_def pose_def vec_sub_def sum_squares_def ev
      half_turn_poses_def)

lemma example_half_turn_aos:
  "pivot_calibration_aos example_svd [4, 4, 4] half_turn_poses
     = Inr (Vec [1, 2, 3], Vec [10, 20, 30], 0)"
proof -
  have "example_svd (a_values 4 half_turn_poses) = half_turn_svd (a_values 4 half_turn_poses)"
    by (simp add: example_svd_def length_a_values)
  then have "pivot_calibration_aos example_svd [4, 4, 4] half_turn_poses
             = pivot_calibration_aos half_turn_svd [4, 4, 4] half_turn_poses"
    by (simp add: aos_cases x_values_def)
  then show ?thesis by (simp add: half_turn_aos)
qed

lemma half_turn_refit:
  "refit example_svd [4, 4, 4] half_turn_poses [0, 1, 2, 3]
     = Inr (Vec [1, 2, 3], Vec [10, 20, 30], 0)"
proof -
  have "fancy_index [4, 4, 4] half_turn_poses [0, 1, 2, 3]
        = Inr (NDArray [4, 4, 4] half_turn_poses)"
    by (simp add: fancy_index_def half_turn_poses_def)
  then show ?thesis
    by (simp add: refit_def none_aos example_half_turn_aos)
qed

lemma half_turn_consensus:
  "consensus_at example_svd fixed_draws [4, 4, 4] half_turn_poses 4 (1 / 4) i"
  by (simp add: consensus_at_def half_turn_inliers)


subsection \<open>The loop invariant\<close>

lemma tracks_log:
  "tracks svd draws sh fl et ct k (st \<lparr> printed_failed := failed \<rparr>)
   = tracks svd draws sh fl et ct k st"
  by (simp add: tracks_def)

lemma tracks_skip:
  assumes "tracks svd draws sh fl et ct k st"
    and "\<not> consensus_at svd draws sh fl et ct k"
  shows "tracks svd draws sh fl et ct (Suc k) st"
  using assms is_best_skip [OF _ assms(2)]
  by (auto simp: tracks_def less_Suc_eq)

lemma tracks_record:
  assumes "tracks svd draws sh fl et ct k st"
    and "consensus_at svd draws sh fl et ct k"
    and "highest_number_of_inliers st < int (votes_at svd draws sh fl et k)"
  shows "is_best svd draws sh fl et ct (Suc k) k"
  using assms(1) unfolding tracks_def
proof
  assume "best_pointer_offset st = PyNone \<and> highest_number_of_inliers st = - 1
        \<and> (\<forall>j<k. \<not> consensus_at svd draws sh fl et ct j)"
  then show ?thesis using is_best_new_first [OF _ assms(2)] by blast
next
  assume "\<exists>i. is_best svd draws sh fl et ct k i
            \<and> refit svd sh fl (the (inliers_at svd draws sh fl et i))
                = Inr (best_pointer_offset st, best_pivot_location st, best_residual_error st)
            \<and> highest_number_of_inliers st = int (votes_at svd draws sh fl et i)"
  then obtain i where i: "is_best svd draws sh fl et ct k i"
    and hi: "highest_number_of_inliers st = int (votes_at svd draws sh fl et i)"
    by blast
  have "votes_at svd draws sh fl et i < votes_at svd draws sh fl et k"
    using assms(3) hi by linarith
  then show ?thesis using is_best_new [OF i assms(2)] by blast
qed

lemma record_higher:
  assumes "tracks svd draws sh fl et ct k st"
    and "is_best svd draws sh fl et ct (Suc k) k"
  shows "highest_number_of_inliers st < int (votes_at svd draws sh fl et k)"
  using assms(1) unfolding tracks_def
proof
  assume "best_pointer_offset st = PyNone \<and> highest_number_of_inliers st = - 1
        \<and> (\<forall>j<k. \<not> consensus_at svd draws sh fl et ct j)"
  then show ?thesis by simp
next
  assume "\<exists>i. is_best svd draws sh fl et ct k i
            \<and> refit svd sh fl (the (inliers_at svd draws sh fl et i))
                = Inr (best_pointer_offset st, best_pivot_location st, best_residual_error st)
            \<and> highest_number_of_inliers st = int (votes_at svd draws sh fl et i)"
  then obtain i where i: "is_best svd draws sh fl et ct k i"
    and hi: "highest_number_of_inliers st = int (votes_at svd draws sh fl et i)"
    by blast
  from i have "i < k" and "consensus_at svd draws sh fl et ct i"
    by (simp_all add: is_best_def)
  then have "votes_at svd draws sh fl et i < votes_at svd draws sh fl et k"
    using assms(2) by (simp add: is_best_def)
  then show ?thesis using hi by simp
qed

lemma tracks_keep:
  assumes "tracks svd draws sh fl et ct k st"
    and "consensus_at svd draws sh fl et ct k"
    and "\<not> highest_number_of_inliers st < int (votes_at svd draws sh fl et k)"
  shows "tracks svd draws sh fl et ct (Suc k) st"
proof -
  have "highest_number_of_inliers st \<noteq> - 1" using assms(3) by linarith
  then obtain i where i: "is_best svd draws sh fl et ct k i"
    and r: "refit svd sh fl (the (inliers_at svd draws sh fl et i))
            = Inr (best_pointer_offset st, best_pivot_location st, best_residual_error st)"
    and hi: "highest_number_of_inliers st = int (votes_at svd draws sh fl et i)"
    using assms(1) unfolding tracks_def by blast
  have "votes_at svd draws sh fl et k \<le> votes_at svd draws sh fl et i"
    using assms(3) hi by linarith
  then have "is_best svd draws sh fl et ct (Suc k) i"
    using is_best_keep [OF i] by blast
  then show ?thesis unfolding tracks_def using r hi by blast
qed

lemma step_tracks:
  assumes "tracks svd draws [N, 4, 4] fl et ct k st"
    and "calm_at svd draws [N, 4, 4] fl et ct k"
  shows "\<exists>st'. ransac_iteration svd draws [N, 4, 4] fl et ct False st k = Continue st'
               \<and> tracks svd draws [N, 4, 4] fl et ct (Suc k) st'"
proof (cases "consensus_at svd draws [N, 4, 4] fl et ct k")
  case False
  obtain r where "draw_and_fit svd draws [N, 4, 4] fl k = Inr r"
    using assms(2) by (auto simp: calm_at_def)
  then have "quiet_at svd draws [N, 4, 4] fl et ct k"
    using False by (simp add: quiet_at_def)
  then obtain log where "ransac_iteration svd draws [N, 4, 4] fl et ct False st k
      = Continue (st \<lparr> printed_failed := log \<rparr>)"
    using quiet_step by blast
  then show ?thesis
    using tracks_skip [OF assms(1) False] by (auto simp: tracks_log)
next
  case True
  note votes = votes_length [OF True]
  obtain model where fit: "draw_and_fit svd draws [N, 4, 4] fl k = Inr (Some model)"
    using consensus_fit [OF True] by blast
  show ?thesis
  proof (cases "highest_number_of_inliers st < int (votes_at svd draws [N, 4, 4] fl et k)")
    case higher: True
    have best: "is_best svd draws [N, 4, 4] fl et ct (Suc k) k"
      by (rule tracks_record [OF assms(1) True higher])
    then obtain po pl re where re: "refit svd [N, 4, 4] fl
        (the (inliers_at svd draws [N, 4, 4] fl et k)) = Inr (po, pl, re)"
      using assms(2) by (auto simp: calm_at_def)
    let ?st' = "st \<lparr> highest_number_of_inliers :=
          int (length (the (inliers_at svd draws [N, 4, 4] fl et k))),
        best_pointer_offset := po, best_pivot_location := pl, best_residual_error := re \<rparr>"
    have "ransac_iteration svd draws [N, 4, 4] fl et ct False st k = Continue ?st'"
      using fit True higher votes re by (simp add: iteration_cases)
    moreover have "tracks svd draws [N, 4, 4] fl et ct (Suc k) ?st'"
      unfolding tracks_def using best re votes by auto
    ultimately show ?thesis by blast
  next
    case lower: False
    have "ransac_iteration svd draws [N, 4, 4] fl et ct False st k = Continue st"
      using fit True lower votes by (simp add: iteration_cases)
    then show ?thesis
      using tracks_keep [OF assms(1) True lower] by blast
  qed
qed

lemma loop_calm:
  assumes "k \<le> n"
    and "tracks svd draws [N, 4, 4] fl et ct k st"
    and "\<forall>j. k \<le> j \<and> j < n \<longrightarrow> calm_at svd draws [N, 4, 4] fl et ct j"
  shows "\<exists>st'. tracks svd draws [N, 4, 4] fl et ct n st'
      \<and> ransac_loop svd draws [N, 4, 4] fl et ct False [k..<n] st
        = (if best_pointer_offset st' = PyNone then Inl NoModelFound
           else Inr (best_pointer_offset st', best_pivot_location st', best_residual_error st'))"
  using assms
proof (induction "n - k" arbitrary: k st)
  case 0
  then have "k = n" by simp
  then show ?case using "0.prems"(2) by auto
next
  case (Suc d)
  then have lt: "k < n" by simp
  then have unfold: "[k..<n] = k # [Suc k..<n]" by (simp add: upt_conv_Cons)
  have "calm_at svd draws [N, 4, 4] fl et ct k" using Suc.prems(3) lt by simp
  from step_tracks [OF Suc.prems(2) this]
  obtain st1 where step: "ransac_iteration svd draws [N, 4, 4] fl et ct False st k = Continue st1"
    and tr: "tracks svd draws [N, 4, 4] fl et ct (Suc k) st1"
    by blast
  have d: "d = n - Suc k" using Suc.hyps(2) by simp
  have le: "Suc k \<le> n" using lt by simp
  have rest: "\<forall>j. Suc k \<le> j \<and> j < n \<longrightarrow> calm_at svd draws [N, 4, 4] fl et ct j"
    using Suc.prems(3) by simp
  show ?case
    using Suc.hyps(1) [OF d le tr rest] step unfold by simp
qed

lemma loop_first_raise:
  assumes "k \<le> k1" and "k1 < n"
    and "tracks svd draws [N, 4, 4] fl et ct k st"
    and "\<forall>j. k \<le> j \<and> j < k1 \<longrightarrow> calm_at svd draws [N, 4, 4] fl et ct j"
    and "draw_and_fit svd draws [N, 4, 4] fl k1 = Inl e
         \<or> (is_best svd draws [N, 4, 4] fl et ct (Suc k1) k1
            \<and> refit svd [N, 4, 4] fl (the (inliers_at svd draws [N, 4, 4] fl et k1)) = Inl e)"
  shows "ransac_loop svd draws [N, 4, 4] fl et ct False [k..<n] st = Inl e"
  using assms(1,3,4)
proof (induction "k1 - k" arbitrary: k st)
  case 0
  then have k: "k = k1" by simp
  have unfold: "[k1..<n] = k1 # [Suc k1..<n]" using assms(2) by (simp add: upt_conv_Cons)
  have "ransac_iteration svd draws [N, 4, 4] fl et ct False st k1 = Raise e"
    using assms(5)
  proof
    assume "draw_and_fit svd draws [N, 4, 4] fl k1 = Inl e"
    then show ?thesis by (simp add: iteration_cases)
  next
    assume a: "is_best svd draws [N, 4, 4] fl et ct (Suc k1) k1
            \<and> refit svd [N, 4, 4] fl (the (inliers_at svd draws [N, 4, 4] fl et k1)) = Inl e"
    then have cons: "consensus_at svd draws [N, 4, 4] fl et ct k1"
      by (simp add: is_best_def)
    obtain model where fit: "draw_and_fit svd draws [N, 4, 4] fl k1 = Inr (Some model)"
      using consensus_fit [OF cons] by blast
    have "highest_number_of_inliers st < int (votes_at svd draws [N, 4, 4] fl et k1)"
      using record_higher "0.prems"(2) a k by blast
    then show ?thesis
      using fit cons a votes_length [OF cons] by (simp add: iteration_cases)
  qed
  then show ?case using k unfold by simp
next
  case (Suc d)
  then have lt: "k < k1" by simp
  then have "k < n" using assms(2) by simp
  then have unfold: "[k..<n] = k # [Suc k..<n]" by (simp add: upt_conv_Cons)
  have "calm_at svd draws [N, 4, 4] fl et ct k" using Suc.prems(3) lt by simp
  from step_tracks [OF Suc.prems(2) this]
  obtain st1 where step: "ransac_iteration svd draws [N, 4, 4] fl et ct False st k = Continue st1"
    and tr: "tracks svd draws [N, 4, 4] fl et ct (Suc k) st1"
    by blast
  have d: "d = k1 - Suc k" using Suc.hyps(2) by simp
  have le: "Suc k \<le> k1" using lt by simp
  have rest: "\<forall>j. Suc k \<le> j \<and> j < k1 \<longrightarrow> calm_at svd draws [N, 4, 4] fl et ct j"
    using Suc.prems(3) by simp
  show ?case
    using Suc.hyps(1) [OF d le tr rest] step unfold by simp
qed

lemma loop_quiet_then_draw_error:
  assumes "\<forall>j \<in> set pre. quiet_at svd draws [N, 4, 4] fl et ct j"
    and "draw_and_fit svd draws [N, 4, 4] fl i = Inl e"
  shows "ransac_loop svd draws [N, 4, 4] fl et ct ee (pre @ i # post) st = Inl e"
  using assms(1)
proof (induction pre arbitrary: st)
  case Nil
  show ?case using assms(2) by (simp add: iteration_cases)
next
  case (Cons j pre)
  have q: "quiet_at svd draws [N, 4, 4] fl et ct j" using Cons.prems by simp
  obtain log where step: "ransac_iteration svd draws [N, 4, 4] fl et ct ee st j
      = Continue (st \<lparr> printed_failed := log \<rparr>)"
    using quiet_step [OF q] by blast
  show ?case
    using Cons.IH [of "st \<lparr> printed_failed := log \<rparr>"] Cons.prems step by simp
qed

lemma tracks_initial: "tracks svd draws sh fl et ct 0 initial_state"
  by (simp add: tracks_def initial_state_def)

subsection \<open>The outcome of the RANSAC function\<close>

text \<open>
  C7, as amended. With valid parameters, on an array of shape \<open>N \<times> 4 \<times> 4\<close>:
  \<^item> the function raises the no-model error exactly when every iteration passes without
    raising and without consensus;
  \<^item> with early exit it ends in the first iteration that reaches consensus, all earlier
    ones having passed quietly, with the outcome of the fit on that iteration's inliers, be
    it a model or the error of that fit;
  \<^item> with or without early exit, an error of the draw in an iteration before which all
    iterations passed quietly leaves the function;
  \<^item> without early exit, when every iteration is calm and some iteration reaches consensus,
    the function returns a model, and it is the fit on the inliers of the preferred
    iteration, the first with the greatest number of inliers among those that reach
    consensus;
  \<^item> without early exit, the error of the first iteration that is not calm, raised by its
    draw or by the fit on its inliers, leaves the function;
  \<^item> without early exit, a model that is returned is always the fit on the inliers of the
    preferred iteration.
\<close>

theorem ransac_result:
  assumes "1 \<le> number_iterations" and "0 \<le> error_threshold"
    and "0 \<le> concensus_threshold" and "concensus_threshold \<le> 1"
  shows "(pivot_calibration_with_ransac svd draws (NDArray [N, 4, 4] fl) number_iterations
            error_threshold concensus_threshold early_exit = Inl NoModelFound
          \<longleftrightarrow> (\<forall>i < nat number_iterations.
                 quiet_at svd draws [N, 4, 4] fl error_threshold concensus_threshold i))
     \<and> (\<forall>i < nat number_iterations.
           (\<forall>j<i. quiet_at svd draws [N, 4, 4] fl error_threshold concensus_threshold j)
           \<and> consensus_at svd draws [N, 4, 4] fl error_threshold concensus_threshold i
           \<longrightarrow> pivot_calibration_with_ransac svd draws (NDArray [N, 4, 4] fl) number_iterations
                 error_threshold concensus_threshold True
               = refit svd [N, 4, 4] fl (the (inliers_at svd draws [N, 4, 4] fl error_threshold i)))
     \<and> (\<forall>i < nat number_iterations. \<forall>e.
           (\<forall>j<i. quiet_at svd draws [N, 4, 4] fl error_threshold concensus_threshold j)
           \<and> draw_and_fit svd draws [N, 4, 4] fl i = Inl e
           \<longrightarrow> pivot_calibration_with_ransac svd draws (NDArray [N, 4, 4] fl) number_iterations
                 error_threshold concensus_threshold early_exit = Inl e)
     \<and> ((\<forall>k < nat number_iterations.
            calm_at svd draws [N, 4, 4] fl error_threshold concensus_threshold k)
          \<and> (\<exists>i < nat number_iterations.
            consensus_at svd draws [N, 4, 4] fl error_threshold concensus_threshold i)
          \<longrightarrow> (\<exists>i m. is_best svd draws [N, 4, 4] fl error_threshold concensus_threshold
                        (nat number_iterations) i
                  \<and> refit svd [N, 4, 4] fl
                       (the (inliers_at svd draws [N, 4, 4] fl error_threshold i)) = Inr m
                  \<and> pivot_calibration_with_ransac svd draws (NDArray [N, 4, 4] fl)
                       number_iterations error_threshold concensus_threshold False = Inr m))
     \<and> (\<forall>k < nat number_iterations. \<forall>e.
           (\<forall>j<k. calm_at svd draws [N, 4, 4] fl error_threshold concensus_threshold j)
           \<and> (draw_and_fit svd draws [N, 4, 4] fl k = Inl e
              \<or> (is_best svd draws [N, 4, 4] fl error_threshold concensus_threshold (Suc k) k
                 \<and> refit svd [N, 4, 4] fl
                      (the (inliers_at svd draws [N, 4, 4] fl error_threshold k)) = Inl e))
           \<longrightarrow> pivot_calibration_with_ransac svd draws (NDArray [N, 4, 4] fl) number_iterations
                 error_threshold concensus_threshold False = Inl e)
     \<and> (\<forall>m. pivot_calibration_with_ransac svd draws (NDArray [N, 4, 4] fl) number_iterations
              error_threshold concensus_threshold False = Inr m
           \<longrightarrow> (\<exists>i. is_best svd draws [N, 4, 4] fl error_threshold concensus_threshold
                       (nat number_iterations) i
                  \<and> refit svd [N, 4, 4] fl
                       (the (inliers_at svd draws [N, 4, 4] fl error_threshold i)) = Inr m))"
proof (intro conjI allI impI)
  have run: "\<And>ee. pivot_calibration_with_ransac svd draws (NDArray [N, 4, 4] fl)
        number_iterations error_threshold concensus_threshold ee
      = ransac_loop svd draws [N, 4, 4] fl error_threshold concensus_threshold ee
          [0..<nat number_iterations] initial_state"
    using assms by (simp add: pivot_calibration_with_ransac_def)
  note start = tracks_initial [of svd draws "[N, 4, 4]" fl error_threshold concensus_threshold]
  show "pivot_calibration_with_ransac svd draws (NDArray [N, 4, 4] fl) number_iterations
            error_threshold concensus_threshold early_exit = Inl NoModelFound
          \<longleftrightarrow> (\<forall>i < nat number_iterations.
                 quiet_at svd draws [N, 4, 4] fl error_threshold concensus_threshold i)"
    using loop_no_model [where st = initial_state and iters = "[0..<nat number_iterations]"
        and svd = svd and draws = draws and N = N and fl = fl and et = error_threshold
        and ct = concensus_threshold and ee = early_exit]
    by (auto simp: run initial_state_def)
  {
    fix i
    assume i: "i < nat number_iterations"
      and h: "(\<forall>j<i. quiet_at svd draws [N, 4, 4] fl error_threshold concensus_threshold j)
           \<and> consensus_at svd draws [N, 4, 4] fl error_threshold concensus_threshold i"
    have fresh: "highest_number_of_inliers initial_state < 0"
      by (simp add: initial_state_def)
    have pre: "\<forall>j \<in> set [0..<i].
        quiet_at svd draws [N, 4, 4] fl error_threshold concensus_threshold j"
      using h by simp
    show "pivot_calibration_with_ransac svd draws (NDArray [N, 4, 4] fl) number_iterations
                 error_threshold concensus_threshold True
          = refit svd [N, 4, 4] fl (the (inliers_at svd draws [N, 4, 4] fl error_threshold i))"
      using loop_early_exit [OF fresh pre, where i = i and post = "[Suc i..<nat number_iterations]"]
        h upt_split [OF i]
      by (simp add: run)
  }
  {
    fix i e
    assume i: "i < nat number_iterations"
      and h: "(\<forall>j<i. quiet_at svd draws [N, 4, 4] fl error_threshold concensus_threshold j)
           \<and> draw_and_fit svd draws [N, 4, 4] fl i = Inl e"
    have pre: "\<forall>j \<in> set [0..<i].
        quiet_at svd draws [N, 4, 4] fl error_threshold concensus_threshold j"
      using h by simp
    show "pivot_calibration_with_ransac svd draws (NDArray [N, 4, 4] fl) number_iterations
                 error_threshold concensus_threshold early_exit = Inl e"
      using loop_quiet_then_draw_error [OF pre, where i = i and e = e
          and post = "[Suc i..<nat number_iterations]" and ee = early_exit
          and st = initial_state] h upt_split [OF i]
      by (simp add: run)
  }
  {
    assume h: "(\<forall>k < nat number_iterations.
            calm_at svd draws [N, 4, 4] fl error_threshold concensus_threshold k)
          \<and> (\<exists>i < nat number_iterations.
            consensus_at svd draws [N, 4, 4] fl error_threshold concensus_threshold i)"
    then have calm: "\<forall>j. 0 \<le> j \<and> j < nat number_iterations
        \<longrightarrow> calm_at svd draws [N, 4, 4] fl error_threshold concensus_threshold j"
      by simp
    from loop_calm [OF _ start calm]
    obtain st' where tr: "tracks svd draws [N, 4, 4] fl error_threshold concensus_threshold
          (nat number_iterations) st'"
      and res: "ransac_loop svd draws [N, 4, 4] fl error_threshold concensus_threshold False
          [0..<nat number_iterations] initial_state
        = (if best_pointer_offset st' = PyNone then Inl NoModelFound
           else Inr (best_pointer_offset st', best_pivot_location st', best_residual_error st'))"
      by blast
    from tr h obtain i where best: "is_best svd draws [N, 4, 4] fl error_threshold
          concensus_threshold (nat number_iterations) i"
      and r: "refit svd [N, 4, 4] fl (the (inliers_at svd draws [N, 4, 4] fl error_threshold i))
          = Inr (best_pointer_offset st', best_pivot_location st', best_residual_error st')"
      unfolding tracks_def by blast
    have "best_pointer_offset st' \<noteq> PyNone" using refit_vec [OF r] .
    then show "\<exists>i m. is_best svd draws [N, 4, 4] fl error_threshold concensus_threshold
                        (nat number_iterations) i
                  \<and> refit svd [N, 4, 4] fl
                       (the (inliers_at svd draws [N, 4, 4] fl error_threshold i)) = Inr m
                  \<and> pivot_calibration_with_ransac svd draws (NDArray [N, 4, 4] fl)
                       number_iterations error_threshold concensus_threshold False = Inr m"
      using best r res by (auto simp: run)
  }
  {
    fix k e
    assume k: "k < nat number_iterations"
      and h: "(\<forall>j<k. calm_at svd draws [N, 4, 4] fl error_threshold concensus_threshold j)
           \<and> (draw_and_fit svd draws [N, 4, 4] fl k = Inl e
              \<or> (is_best svd draws [N, 4, 4] fl error_threshold concensus_threshold (Suc k) k
                 \<and> refit svd [N, 4, 4] fl
                      (the (inliers_at svd draws [N, 4, 4] fl error_threshold k)) = Inl e))"
    then have calm: "\<forall>j. 0 \<le> j \<and> j < k
        \<longrightarrow> calm_at svd draws [N, 4, 4] fl error_threshold concensus_threshold j"
      by simp
    from h have raise: "draw_and_fit svd draws [N, 4, 4] fl k = Inl e
              \<or> (is_best svd draws [N, 4, 4] fl error_threshold concensus_threshold (Suc k) k
                 \<and> refit svd [N, 4, 4] fl
                      (the (inliers_at svd draws [N, 4, 4] fl error_threshold k)) = Inl e)"
      by blast
    show "pivot_calibration_with_ransac svd draws (NDArray [N, 4, 4] fl) number_iterations
                 error_threshold concensus_threshold False = Inl e"
      using loop_first_raise [OF _ k start calm raise] by (simp add: run)
  }
  {
    fix m
    assume "pivot_calibration_with_ransac svd draws (NDArray [N, 4, 4] fl) number_iterations
              error_threshold concensus_threshold False = Inr m"
    then have loop: "ransac_loop svd draws [N, 4, 4] fl error_threshold concensus_threshold False
          [0..<nat number_iterations] initial_state = Inr m"
      by (simp add: run)
    have inv: "(best_pointer_offset initial_state = PyNone
           \<and> highest_number_of_inliers initial_state = - 1
           \<and> (\<forall>j<0. \<not> consensus_at svd draws [N, 4, 4] fl error_threshold concensus_threshold j))
         \<or> (\<exists>i. is_best svd draws [N, 4, 4] fl error_threshold concensus_threshold 0 i
                \<and> refit svd [N, 4, 4] fl (the (inliers_at svd draws [N, 4, 4] fl error_threshold i))
                    = Inr (best_pointer_offset initial_state, best_pivot_location initial_state,
                           best_residual_error initial_state)
                \<and> highest_number_of_inliers initial_state
                    = int (votes_at svd draws [N, 4, 4] fl error_threshold i))"
      by (simp add: initial_state_def)
    show "\<exists>i. is_best svd draws [N, 4, 4] fl error_threshold concensus_threshold
                       (nat number_iterations) i
                  \<and> refit svd [N, 4, 4] fl
                       (the (inliers_at svd draws [N, 4, 4] fl error_threshold i)) = Inr m"
      using loop_best_model [OF _ inv loop] by simp
  }
qed


theorem ransac_result_witness:
  "pivot_calibration_with_ransac example_svd fixed_draws (NDArray [4, 4, 4] half_turn_poses)
     10 4 (1 / 4) False = Inr (Vec [1, 2, 3], Vec [10, 20, 30], 0)
   \<and> pivot_calibration_with_ransac example_svd fixed_draws (NDArray [4, 4, 4] half_turn_poses)
     10 4 (1 / 4) True = Inr (Vec [1, 2, 3], Vec [10, 20, 30], 0)
   \<and> pivot_calibration_with_ransac example_svd fixed_draws (NDArray [4, 4, 4] half_turn_poses)
     10 4 (1 / 4) False \<noteq> Inl NoModelFound"
proof -
  note out = ransac_result [where number_iterations = 10 and error_threshold = 4
      and concensus_threshold = "1 / 4" and svd = example_svd and draws = fixed_draws
      and N = 4 and fl = half_turn_poses]
  have refit_all: "\<And>i. refit example_svd [4, 4, 4] half_turn_poses
         (the (inliers_at example_svd fixed_draws [4, 4, 4] half_turn_poses 4 i))
       = Inr (Vec [1, 2, 3], Vec [10, 20, 30], 0)"
    by (simp only: half_turn_inliers option.sel half_turn_refit)
  have calm: "\<forall>k < nat 10. calm_at example_svd fixed_draws [4, 4, 4] half_turn_poses 4 (1 / 4) k"
    by (simp add: calm_at_def half_turn_fit refit_all)
  have cons: "\<exists>i < nat 10. consensus_at example_svd fixed_draws [4, 4, 4] half_turn_poses 4 (1 / 4) i"
  proof (intro exI conjI)
    show "(0::nat) < nat 10" by simp
    show "consensus_at example_svd fixed_draws [4, 4, 4] half_turn_poses 4 (1 / 4) 0"
      by (rule half_turn_consensus)
  qed
  have hyps: "(1::int) \<le> 10" "(0::real) \<le> 4" "(0::real) \<le> 1 / 4" "(1::real) / 4 \<le> 1"
    by simp_all
  from out [OF hyps, where early_exit = False] calm cons
  obtain i m where "refit example_svd [4, 4, 4] half_turn_poses
         (the (inliers_at example_svd fixed_draws [4, 4, 4] half_turn_poses 4 i)) = Inr m"
    and "pivot_calibration_with_ransac example_svd fixed_draws (NDArray [4, 4, 4] half_turn_poses)
       10 4 (1 / 4) False = Inr m"
    by blast
  then have no_exit: "pivot_calibration_with_ransac example_svd fixed_draws
      (NDArray [4, 4, 4] half_turn_poses) 10 4 (1 / 4) False
      = Inr (Vec [1, 2, 3], Vec [10, 20, 30], 0)"
    by (simp add: refit_all)
  have "(\<forall>j<(0::nat). quiet_at example_svd fixed_draws [4, 4, 4] half_turn_poses 4 (1 / 4) j)
      \<and> consensus_at example_svd fixed_draws [4, 4, 4] half_turn_poses 4 (1 / 4) 0"
    using half_turn_consensus [of 0] by simp
  moreover have "(0::nat) < nat 10" by simp
  ultimately have "pivot_calibration_with_ransac example_svd fixed_draws
      (NDArray [4, 4, 4] half_turn_poses) 10 4 (1 / 4) True
     = refit example_svd [4, 4, 4] half_turn_poses
         (the (inliers_at example_svd fixed_draws [4, 4, 4] half_turn_poses 4 0))"
    using out [OF hyps, where early_exit = True] by blast
  then show ?thesis
    using no_exit by (simp add: refit_all)
qed


text \<open>
  C7 as stated fails, because an error can leave the function where the claim has it return
  the best model. On the three poses \<open>skewed_poses\<close>, with the default parameters, the only
  inlier of the fitted sample is the second pose, consensus is reached, and the fit on that
  single pose raises the rank error. On two poses the draw of the sample raises.
\<close>

theorem ransac_raises_instead:
  "pivot_calibration_with_ransac example_svd fixed_draws (NDArray [3, 4, 4] skewed_poses)
     10 4 (1 / 4) False = Inl RankLessThan6
   \<and> pivot_calibration_with_ransac example_svd fixed_draws
       (NDArray [2, 4, 4] (take 32 half_turn_poses)) 10 4 (1 / 4) False
     = Inl SampleLargerThanPopulation"
proof -
  have cons: "consensus_at example_svd fixed_draws [3, 4, 4] skewed_poses 4 (1 / 4) 0"
    by (simp add: consensus_at_def skewed_inliers)
  have "ransac_iteration example_svd fixed_draws [3, 4, 4] skewed_poses 4 (1 / 4) False
          initial_state 0 = Raise RankLessThan6"
    using consensus_step_fresh [OF cons, where st = initial_state and ee = False]
    by (simp add: initial_state_def skewed_inliers skewed_refit del: One_nat_def)
  then have "pivot_calibration_with_ransac example_svd fixed_draws
      (NDArray [3, 4, 4] skewed_poses) 10 4 (1 / 4) False = Inl RankLessThan6"
    by (simp add: pivot_calibration_with_ransac_def upt_conv_Cons)
  moreover have "pivot_calibration_with_ransac example_svd fixed_draws
       (NDArray [2, 4, 4] (take 32 half_turn_poses)) 10 4 (1 / 4) False
     = Inl SampleLargerThanPopulation"
    by (simp add: pivot_calibration_with_ransac_def upt_conv_Cons ransac_iteration_def
        draw_and_fit_def random_sample_def)
  ultimately show ?thesis by simp
qed

subsection \<open>Scoring a candidate and keeping the best\<close>






subsection \<open>A sample that cannot be fitted\<close>

lemma fit_sample_caught:
  "pivot_calibration_none svd sample = Inl e \<Longrightarrow> exception_class e = ValueError \<Longrightarrow>
   fit_sample svd sample = Inr None"
  by (simp add: fit_sample_def)

lemma fit_sample_not_value_error:
  "fit_sample svd sample = Inl e \<Longrightarrow> exception_class e \<noteq> ValueError"
  by (auto simp: fit_sample_def split: sum.splits if_splits)

lemma draw_and_fit_not_rank:
  "draw_and_fit svd draws sh fl i \<noteq> Inl RankLessThan6"
proof
  assume a: "draw_and_fit svd draws sh fl i = Inl RankLessThan6"
  then show False
    using fit_sample_not_value_error [where e = RankLessThan6]
    by (auto simp: draw_and_fit_def random_sample_def fancy_index_def
        split: sum.splits list.splits if_splits)
qed

lemma score_raise_rank:
  assumes "score_and_update svd sh fl et ct ee st model = Raise RankLessThan6"
  shows "\<exists>inl. refit svd sh fl inl = Inl RankLessThan6"
  using assms
  by (auto simp: score_and_update_def Let_def split: prod.splits if_splits sum.splits)


lemma identical_sample:
  "fancy_index [3, 4, 4] identical_poses [0, 1, 2] = Inr (NDArray [3, 4, 4] identical_poses)"
  by (simp add: fancy_index_def identical_poses_def)

lemma identical_rank:
  "pivot_calibration_none identical_svd (NDArray [3, 4, 4] identical_poses) = Inl RankLessThan6"
  by (simp add: none_aos aos_cases replace_small_values_rank identical_svd_def identical_s_def
      sqrt_6_not_small)


text \<open>
  C9. When the one-step solver raises the rank error on the drawn sample, the error is
  caught: the iteration prints its number and the loop goes on with the next iteration
  and an unchanged model. Drawing and fitting never raise the rank error; an iteration
  raises it only after its sample was fitted, from the fit on the inliers; and a direct
  call of the dispatcher without configuration passes the solver's rank error on.
\<close>

theorem degenerate_sample_caught:
  "(random_sample draws i (hd sh) 3 = Inr indexes \<and> fancy_index sh fl indexes = Inr sample
      \<and> pivot_calibration_none svd sample = Inl RankLessThan6
    \<longrightarrow> draw_and_fit svd draws sh fl i = Inr None)
   \<and> (draw_and_fit svd draws sh fl i = Inr None
    \<longrightarrow> ransac_iteration svd draws sh fl error_threshold concensus_threshold early_exit st i
          = Continue (st \<lparr> printed_failed := printed_failed st @ [i] \<rparr>)
        \<and> ransac_loop svd draws sh fl error_threshold concensus_threshold early_exit (i # rest) st
          = ransac_loop svd draws sh fl error_threshold concensus_threshold early_exit rest
              (st \<lparr> printed_failed := printed_failed st @ [i] \<rparr>))
   \<and> draw_and_fit svd draws sh fl i \<noteq> Inl RankLessThan6
   \<and> (ransac_iteration svd draws sh fl error_threshold concensus_threshold early_exit st i
        = Raise RankLessThan6
    \<longrightarrow> (\<exists>model inl. draw_and_fit svd draws sh fl i = Inr (Some model)
           \<and> refit svd sh fl inl = Inl RankLessThan6))
   \<and> (pivot_calibration_aos svd [N, 4, 4] fl' = Inl RankLessThan6
    \<longrightarrow> pivot_calibration svd draws (NDArray [N, 4, 4] fl') None = Inl RankLessThan6)"
proof (intro conjI impI)
  assume "random_sample draws i (hd sh) 3 = Inr indexes \<and> fancy_index sh fl indexes = Inr sample
      \<and> pivot_calibration_none svd sample = Inl RankLessThan6"
  then show "draw_and_fit svd draws sh fl i = Inr None"
    by (simp add: draw_and_fit_def fit_sample_def)
next
  assume "draw_and_fit svd draws sh fl i = Inr None"
  then show "ransac_iteration svd draws sh fl error_threshold concensus_threshold early_exit st i
          = Continue (st \<lparr> printed_failed := printed_failed st @ [i] \<rparr>)"
    by (simp add: ransac_iteration_def)
next
  assume "draw_and_fit svd draws sh fl i = Inr None"
  then show "ransac_loop svd draws sh fl error_threshold concensus_threshold early_exit (i # rest) st
          = ransac_loop svd draws sh fl error_threshold concensus_threshold early_exit rest
              (st \<lparr> printed_failed := printed_failed st @ [i] \<rparr>)"
    by (simp add: ransac_iteration_def)
next
  show "draw_and_fit svd draws sh fl i \<noteq> Inl RankLessThan6"
    by (rule draw_and_fit_not_rank)
next
  assume r: "ransac_iteration svd draws sh fl error_threshold concensus_threshold early_exit st i
        = Raise RankLessThan6"
  show "\<exists>model inl. draw_and_fit svd draws sh fl i = Inr (Some model)
           \<and> refit svd sh fl inl = Inl RankLessThan6"
  proof (cases "draw_and_fit svd draws sh fl i")
    case (Inl e)
    then show ?thesis using r draw_and_fit_not_rank [of svd draws sh fl i]
      by (simp add: ransac_iteration_def)
  next
    case (Inr m)
    then show ?thesis
      using r score_raise_rank [of svd sh fl error_threshold concensus_threshold early_exit st]
      by (cases m) (auto simp: ransac_iteration_def)
  qed
next
  assume "pivot_calibration_aos svd [N, 4, 4] fl' = Inl RankLessThan6"
  then show "pivot_calibration svd draws (NDArray [N, 4, 4] fl') None = Inl RankLessThan6"
    by (simp add: pivot_calibration_def shape_check_def)
qed


theorem degenerate_sample_caught_witness:
  "pivot_calibration_none identical_svd (NDArray [3, 4, 4] identical_poses) = Inl RankLessThan6
   \<and> ransac_iteration identical_svd fixed_draws [3, 4, 4] identical_poses 4 (1 / 4) False
       initial_state 0
     = Continue (initial_state \<lparr> printed_failed := [0] \<rparr>)
   \<and> ransac_loop identical_svd fixed_draws [3, 4, 4] identical_poses 4 (1 / 4) False
       [0] initial_state = Inl NoModelFound"
proof -
  have s: "random_sample fixed_draws 0 (hd [3, 4, 4]) 3 = Inr [0, 1, 2]"
    by (simp add: random_sample_def fixed_draws_def)
  note c = degenerate_sample_caught [where draws = fixed_draws and i = 0 and sh = "[3, 4, 4]"
      and indexes = "[0, 1, 2]" and fl = identical_poses
      and sample = "NDArray [3, 4, 4] identical_poses" and svd = identical_svd
      and error_threshold = 4 and concensus_threshold = "1 / 4" and early_exit = False
      and st = initial_state and rest = "[]"]
  from c s identical_sample identical_rank
  have d: "draw_and_fit identical_svd fixed_draws [3, 4, 4] identical_poses 0 = Inr None"
    by blast
  with c have "ransac_iteration identical_svd fixed_draws [3, 4, 4] identical_poses 4 (1 / 4)
       False initial_state 0
     = Continue (initial_state \<lparr> printed_failed := printed_failed initial_state @ [0] \<rparr>)
    \<and> ransac_loop identical_svd fixed_draws [3, 4, 4] identical_poses 4 (1 / 4) False
       [0] initial_state
     = ransac_loop identical_svd fixed_draws [3, 4, 4] identical_poses 4 (1 / 4) False []
         (initial_state \<lparr> printed_failed := printed_failed initial_state @ [0] \<rparr>)"
    by blast
  then show ?thesis
    using identical_rank by (simp add: initial_state_def)
qed


subsection \<open>The shape check\<close>

lemma loop_all_failed:
  assumes "\<forall>i \<in> set iters. draw_and_fit svd draws sh fl i = Inr None"
    and "best_pointer_offset st = PyNone"
  shows "ransac_loop svd draws sh fl et ct ee iters st = Inl NoModelFound"
  using assms
  by (induction iters arbitrary: st) (simp_all add: ransac_iteration_def)


lemma fancy_index_array:
  assumes "fancy_index sh fl idx = Inr t"
  shows "\<exists>fl'. t = NDArray (length idx # tl sh) fl' \<and> sh \<noteq> []"
  using assms by (auto simp: fancy_index_def split: list.splits if_splits)

lemma none_array_error:
  assumes "pivot_calibration_none svd (NDArray sh fl) = Inl e"
  shows "e = TupleIndexOutOfRange \<or> e = Not4Rows \<or> e = Not4Columns
         \<or> e = CannotReshape \<or> e = RankLessThan6"
  using assms aos_error [of svd sh fl e]
  by (auto simp: pivot_calibration_none_def shape_check_def split: if_splits)

lemma none_array_ok_error:
  assumes "pivot_calibration_none svd (NDArray (n # inner) fl) = Inl e"
    and "2 \<le> length inner" and "inner ! 0 = 4" and "inner ! 1 = 4"
  shows "e = CannotReshape \<or> e = RankLessThan6"
  using assms aos_error [of svd "n # inner" fl e]
  by (auto simp: pivot_calibration_none_def shape_check_def split: if_splits)

lemma none_array_ok:
  assumes "pivot_calibration_none svd (NDArray (n # inner) fl) = Inr m"
  shows "2 \<le> length inner \<and> inner ! 0 = 4 \<and> inner ! 1 = 4"
  using assms
  by (auto simp: pivot_calibration_none_def shape_check_def split: if_splits)

lemma draw_and_fit_kind:
  assumes "draw_and_fit svd draws sh fl i = Inl e"
  shows "kind_of e = None"
proof (cases "random_sample draws i (hd sh) 3")
  case (Inl e')
  then show ?thesis
    using assms by (auto simp: draw_and_fit_def random_sample_def split: if_splits)
next
  case (Inr idx)
  show ?thesis
  proof (cases "fancy_index sh fl idx")
    case (Inl e')
    then show ?thesis
      using assms Inr
      by (auto simp: draw_and_fit_def fancy_index_def split: list.splits if_splits)
  next
    case fi: (Inr t)
    obtain fl' where t: "t = NDArray (length idx # tl sh) fl'"
      using fancy_index_array [OF fi] by blast
    have "fit_sample svd (NDArray (length idx # tl sh) fl') = Inl e"
      using assms Inr fi t by (simp add: draw_and_fit_def)
    then show ?thesis
      using none_array_error [of svd "length idx # tl sh" fl']
      by (auto simp: fit_sample_def split: sum.splits if_splits)
  qed
qed

lemma draw_and_fit_shape:
  assumes "draw_and_fit svd draws sh fl i = Inr (Some m)"
  shows "sh \<noteq> [] \<and> 2 \<le> length (tl sh) \<and> tl sh ! 0 = 4 \<and> tl sh ! 1 = 4"
proof -
  obtain idx where "random_sample draws i (hd sh) 3 = Inr idx"
    using assms by (auto simp: draw_and_fit_def split: sum.splits)
  moreover obtain t where fi: "fancy_index sh fl idx = Inr t"
    using assms calculation by (auto simp: draw_and_fit_def split: sum.splits)
  moreover obtain fl' where t: "t = NDArray (length idx # tl sh) fl'" and ne: "sh \<noteq> []"
    using fancy_index_array [OF fi] by blast
  ultimately have "fit_sample svd (NDArray (length idx # tl sh) fl') = Inr (Some m)"
    using assms by (simp add: draw_and_fit_def)
  then have "pivot_calibration_none svd (NDArray (length idx # tl sh) fl') = Inr m"
    by (auto simp: fit_sample_def split: sum.splits if_splits)
  from none_array_ok [OF this] ne show ?thesis by simp
qed

lemma refit_kind:
  assumes "refit svd sh fl inl = Inl e"
    and "sh \<noteq> []" and "2 \<le> length (tl sh)" and "tl sh ! 0 = 4" and "tl sh ! 1 = 4"
  shows "kind_of e \<noteq> Some ShapeError"
proof (cases "fancy_index sh fl inl")
  case (Inl e')
  then show ?thesis
    using assms(1) by (auto simp: refit_def fancy_index_def split: list.splits if_splits)
next
  case fi: (Inr t)
  obtain fl' where t: "t = NDArray (length inl # tl sh) fl'"
    using fancy_index_array [OF fi] by blast
  have "pivot_calibration_none svd (NDArray (length inl # tl sh) fl') = Inl e"
    using assms(1) fi t by (simp add: refit_def)
  from none_array_ok_error [OF this assms(3,4,5)] show ?thesis by auto
qed

lemma score_kind:
  assumes "score_and_update svd sh fl et ct ee st model = Raise e"
    and "sh \<noteq> []" and "2 \<le> length (tl sh)" and "tl sh ! 0 = 4" and "tl sh ! 1 = 4"
  shows "kind_of e \<noteq> Some ShapeError"
  using assms(1) refit_kind [OF _ assms(2,3,4,5)]
  by (auto simp: score_and_update_def Let_def split: prod.splits if_splits sum.splits)

lemma iteration_kind:
  assumes "ransac_iteration svd draws sh fl et ct ee st i = Raise e"
  shows "kind_of e \<noteq> Some ShapeError"
proof (cases "draw_and_fit svd draws sh fl i")
  case (Inl e')
  then show ?thesis
    using assms draw_and_fit_kind [OF Inl] by (simp add: ransac_iteration_def)
next
  case (Inr r)
  show ?thesis
  proof (cases r)
    case None
    then show ?thesis using assms Inr by (simp add: ransac_iteration_def)
  next
    case (Some m)
    then have fit: "draw_and_fit svd draws sh fl i = Inr (Some m)" using Inr by simp
    have "score_and_update svd sh fl et ct ee st m = Raise e"
      using assms fit by (simp add: ransac_iteration_def)
    then show ?thesis
      using score_kind draw_and_fit_shape [OF fit] by blast
  qed
qed

lemma loop_kind:
  assumes "ransac_loop svd draws sh fl et ct ee iters st = Inl e"
  shows "kind_of e \<noteq> Some ShapeError"
  using assms
proof (induction iters arbitrary: st)
  case Nil
  then show ?case by (auto split: if_splits)
next
  case (Cons i iters)
  show ?case
  proof (cases "ransac_iteration svd draws sh fl et ct ee st i")
    case (Continue st')
    then show ?thesis using Cons.IH [of st'] Cons.prems by simp
  next
    case (Return m)
    then show ?thesis using Cons.prems by simp
  next
    case (Raise e')
    then show ?thesis using Cons.prems iteration_kind [OF Raise] by simp
  qed
qed


text \<open>
  C4, as amended. The dispatcher raises a ShapeError, whatever the configuration, the
  decomposition and the draws are, when the poses are not an array, when they are an array
  of at least two dimensions whose second dimension is not 4, and when they are an array of
  at least three dimensions whose third dimension is not 4. The RANSAC function, once its
  parameters are valid, raises a ShapeError when the poses are not an array, and on an
  array it never raises one.
\<close>

theorem shape_errors:
  "pivot_calibration svd draws NotArray config = Inl NotNumpyArray
   \<and> (2 \<le> length sh \<and> sh ! 1 \<noteq> 4 \<longrightarrow>
        pivot_calibration svd draws (NDArray sh fl) config = Inl Not4Rows)
   \<and> (3 \<le> length sh \<and> sh ! 1 = 4 \<and> sh ! 2 \<noteq> 4 \<longrightarrow>
        pivot_calibration svd draws (NDArray sh fl) config = Inl Not4Columns)
   \<and> kind_of NotNumpyArray = Some ShapeError \<and> kind_of Not4Rows = Some ShapeError
   \<and> kind_of Not4Columns = Some ShapeError
   \<and> (1 \<le> number_iterations \<and> 0 \<le> error_threshold \<and> 0 \<le> concensus_threshold
        \<and> concensus_threshold \<le> 1 \<longrightarrow>
        pivot_calibration_with_ransac svd draws NotArray number_iterations error_threshold
          concensus_threshold early_exit = Inl NotNumpyArray
        \<and> (\<forall>e. pivot_calibration_with_ransac svd draws (NDArray sh fl) number_iterations
                 error_threshold concensus_threshold early_exit = Inl e
              \<longrightarrow> kind_of e \<noteq> Some ShapeError))"
proof -
  have "\<forall>e. 1 \<le> number_iterations \<and> 0 \<le> error_threshold \<and> 0 \<le> concensus_threshold
        \<and> concensus_threshold \<le> 1
        \<and> pivot_calibration_with_ransac svd draws (NDArray sh fl) number_iterations
                 error_threshold concensus_threshold early_exit = Inl e
        \<longrightarrow> kind_of e \<noteq> Some ShapeError"
    using loop_kind [of svd draws sh fl error_threshold concensus_threshold early_exit]
    by (auto simp: pivot_calibration_with_ransac_def split: if_splits)
  then show ?thesis
    by (simp add: pivot_calibration_def shape_check_def pivot_calibration_with_ransac_def)
qed


theorem shape_errors_witness:
  "pivot_calibration example_svd fixed_draws (NDArray [4, 3, 4] (take 48 half_turn_poses)) None
     = Inl Not4Rows
   \<and> pivot_calibration example_svd fixed_draws (NDArray [4, 3] (take 12 half_turn_poses)) None
     = Inl Not4Rows
   \<and> pivot_calibration example_svd fixed_draws (NDArray [4, 4, 3] (take 48 half_turn_poses)) None
     = Inl Not4Columns
   \<and> pivot_calibration_with_ransac example_svd fixed_draws NotArray 10 4 (1 / 4) False
     = Inl NotNumpyArray
   \<and> kind_of RankLessThan6 \<noteq> Some ShapeError"
proof -
  note a = shape_errors [where sh = "[4, 3, 4]" and number_iterations = 10
      and error_threshold = 4 and concensus_threshold = "1 / 4" and svd = example_svd
      and draws = fixed_draws and fl = "take 48 half_turn_poses" and config = None
      and early_exit = False]
  note b = shape_errors [where sh = "[4, 3]" and svd = example_svd and draws = fixed_draws
      and fl = "take 12 half_turn_poses" and config = None]
  note c = shape_errors [where sh = "[4, 4, 3]" and svd = example_svd and draws = fixed_draws
      and fl = "take 48 half_turn_poses" and config = None]
  note d = shape_errors [where sh = "[3, 4, 4]" and number_iterations = 10
      and error_threshold = 4 and concensus_threshold = "1 / 4" and svd = example_svd
      and draws = fixed_draws and fl = skewed_poses and early_exit = False]
  have run: "pivot_calibration_with_ransac example_svd fixed_draws (NDArray [3, 4, 4] skewed_poses)
     10 4 (1 / 4) False = Inl RankLessThan6"
  proof -
    have cons: "consensus_at example_svd fixed_draws [3, 4, 4] skewed_poses 4 (1 / 4) 0"
      by (simp add: consensus_at_def skewed_inliers)
    have "ransac_iteration example_svd fixed_draws [3, 4, 4] skewed_poses 4 (1 / 4) False
          initial_state 0 = Raise RankLessThan6"
      using consensus_step_fresh [OF cons, where st = initial_state and ee = False]
      by (simp add: initial_state_def skewed_inliers skewed_refit del: One_nat_def)
    then show ?thesis
      by (simp add: pivot_calibration_with_ransac_def upt_conv_Cons)
  qed
  have "kind_of RankLessThan6 \<noteq> Some ShapeError"
    using d run by simp
  then show ?thesis using a b c by simp
qed


text \<open>
  C4 as stated fails, in three ways. The RANSAC function has no check of the dimensions: on
  an array of shape \<open>3 \<times> 3 \<times> 4\<close> the shape error of every sample is caught in the loop and
  the function ends with the no-model error. The dispatcher lets an array of shape
  \<open>4 \<times> 4 \<times> 4 \<times> 1\<close> through, which is not of rank 3, and returns a result for it. And on an
  array of shape \<open>3 \<times> 4\<close>, or of one dimension, the dispatcher raises the \<^verbatim>\<open>IndexError\<close> of
  reading the shape, which is not a ShapeError.
\<close>

theorem shape_check_gaps:
  "pivot_calibration_with_ransac example_svd fixed_draws
     (NDArray [3, 3, 4] (take 36 half_turn_poses)) 10 4 (1 / 4) False = Inl NoModelFound
   \<and> kind_of NoModelFound = Some NoConsensusError
   \<and> pivot_calibration example_svd fixed_draws (NDArray [4, 4, 4, 1] half_turn_poses) None
     = Inr (Vec [1, 2, 3], Vec [10, 20, 30], 0)
   \<and> pivot_calibration example_svd fixed_draws (NDArray [3, 4] (take 12 half_turn_poses)) None
     = Inl TupleIndexOutOfRange
   \<and> pivot_calibration example_svd fixed_draws (NDArray [16] (take 16 half_turn_poses)) None
     = Inl TupleIndexOutOfRange
   \<and> kind_of TupleIndexOutOfRange = None
   \<and> exception_class TupleIndexOutOfRange = IndexError"
proof -
  have "fancy_index [3, 3, 4] (take 36 half_turn_poses) [0, 1, 2]
        = Inr (NDArray [3, 3, 4] (take 36 half_turn_poses))"
    by (simp add: fancy_index_def half_turn_poses_def)
  then have "\<And>i. draw_and_fit example_svd fixed_draws [3, 3, 4] (take 36 half_turn_poses) i
        = Inr None"
    by (simp add: draw_and_fit_def random_sample_def fixed_draws_def fit_sample_def
        pivot_calibration_none_def shape_check_def)
  then have "pivot_calibration_with_ransac example_svd fixed_draws
     (NDArray [3, 3, 4] (take 36 half_turn_poses)) 10 4 (1 / 4) False = Inl NoModelFound"
    by (simp add: pivot_calibration_with_ransac_def loop_all_failed initial_state_def)
  moreover have "pivot_calibration_aos example_svd [4, 4, 4, 1] half_turn_poses
      = pivot_calibration_aos example_svd [4, 4, 4] half_turn_poses"
    by (simp add: pivot_calibration_aos_def)
  then have "pivot_calibration example_svd fixed_draws (NDArray [4, 4, 4, 1] half_turn_poses) None
     = Inr (Vec [1, 2, 3], Vec [10, 20, 30], 0)"
    by (simp add: pivot_calibration_def shape_check_def example_half_turn_aos)
  moreover have "pivot_calibration example_svd fixed_draws
      (NDArray [3, 4] (take 12 half_turn_poses)) None = Inl TupleIndexOutOfRange"
    by (simp add: pivot_calibration_def shape_check_def)
  moreover have "pivot_calibration example_svd fixed_draws
      (NDArray [16] (take 16 half_turn_poses)) None = Inl TupleIndexOutOfRange"
    by (simp add: pivot_calibration_def shape_check_def)
  ultimately show ?thesis by simp
qed

subsection \<open>The reciprocals of the singular values\<close>

lemma filter_all:
  assumes "length xs \<le> length (filter P xs)"
  shows "\<forall>x \<in> set xs. P x"
proof (rule ccontr)
  assume "\<not> (\<forall>x \<in> set xs. P x)"
  then obtain x where "x \<in> set xs" and "\<not> P x" by blast
  then have "length (filter P xs) < length xs" by (rule length_filter_less)
  then show False using assms by simp
qed

lemma rank_six_all_kept:
  assumes "\<not> snd (replace_small_values s 0.01 0.0) < 6" and "length s \<le> 6"
  shows "\<forall>v \<in> set s. \<not> v < 0.01"
proof -
  have "6 \<le> length (filter (\<lambda>v. \<not> v < 0.01) s)"
    using assms(1) by (simp add: replace_small_values_rank)
  then have "length s \<le> length (filter (\<lambda>v. \<not> v < 0.01) s)"
    using assms(2) by linarith
  then show ?thesis by (rule filter_all)
qed






subsection \<open>The solution of the linear system\<close>

text \<open>
  With orthonormal columns of \<open>u\<close>, orthonormal rows of \<open>vh\<close> and no singular value zero, the
  vector \<open>V diag(1/s) U\<^sup>T b\<close> satisfies the normal equations \<open>A\<^sup>T (A x - b) = 0\<close> of
  \<open>A = U diag(s) V\<^sup>T\<close>: it is a least-squares solution of \<open>A x = b\<close>. First on sums, then
  on the lists of the model.
\<close>

lemma sum_delta_lt:
  fixes f :: "nat \<Rightarrow> real"
  assumes "l < k"
  shows "(\<Sum>l'<k. f l' * (if l = l' then 1 else 0)) = f l"
proof -
  have "(\<Sum>l'<k. f l' * (if l = l' then 1 else 0)) = (\<Sum>l'\<in>{..<k}. if l = l' then f l' else 0)"
    by (rule sum.cong) simp_all
  also have "\<dots> = f l"
    using assms by (simp add: sum.delta')
  finally show ?thesis .
qed

lemma projection_sum:
  fixes V :: "nat \<Rightarrow> nat \<Rightarrow> real" and u S C :: "nat \<Rightarrow> real"
  assumes orthV: "\<And>l l'. l < k \<Longrightarrow> l' < k \<Longrightarrow>
      (\<Sum>j<n. V l j * V l' j) = (if l = l' then 1 else 0)"
    and nz: "\<And>l. l < k \<Longrightarrow> S l \<noteq> 0"
  shows "(\<Sum>j<n. (\<Sum>l<k. u l * S l * V l j) * (\<Sum>l'<k. V l' j * (1 / S l' * C l')))
         = (\<Sum>l<k. u l * C l)"
proof -
  have "(\<Sum>j<n. (\<Sum>l<k. u l * S l * V l j) * (\<Sum>l'<k. V l' j * (1 / S l' * C l')))
        = (\<Sum>j<n. \<Sum>l<k. \<Sum>l'<k. (u l * S l * V l j) * (V l' j * (1 / S l' * C l')))"
    by (simp add: sum_product)
  also have "\<dots> = (\<Sum>l<k. \<Sum>j<n. \<Sum>l'<k. (u l * S l * V l j) * (V l' j * (1 / S l' * C l')))"
    by (rule sum.swap)
  also have "\<dots> = (\<Sum>l<k. \<Sum>l'<k. \<Sum>j<n. (u l * S l * V l j) * (V l' j * (1 / S l' * C l')))"
    by (rule sum.cong [OF refl]) (rule sum.swap)
  also have "\<dots> = (\<Sum>l<k. \<Sum>l'<k. (u l * S l * (1 / S l' * C l')) * (\<Sum>j<n. V l j * V l' j))"
    by (intro sum.cong refl) (simp add: sum_distrib_left sum_divide_distrib mult_ac)
  also have "\<dots> = (\<Sum>l<k. \<Sum>l'<k. (u l * S l * (1 / S l' * C l')) * (if l = l' then 1 else 0))"
    by (intro sum.cong refl) (simp add: orthV)
  also have "\<dots> = (\<Sum>l<k. u l * S l * (1 / S l * C l))"
  proof (intro sum.cong refl)
    fix l assume "l \<in> {..<k}"
    then have l: "l < k" by simp
    show "(\<Sum>l'<k. u l * S l * (1 / S l' * C l') * (if l = l' then 1 else 0))
          = u l * S l * (1 / S l * C l)"
      by (rule sum_delta_lt [OF l, where f = "\<lambda>l'. u l * S l * (1 / S l' * C l')"])
  qed
  also have "\<dots> = (\<Sum>l<k. u l * C l)"
    by (intro sum.cong refl) (simp add: nz)
  finally show ?thesis .
qed

lemma normal_equations_sum:
  fixes U V :: "nat \<Rightarrow> nat \<Rightarrow> real" and S B :: "nat \<Rightarrow> real"
  assumes orthU: "\<And>l l'. l < k \<Longrightarrow> l' < k \<Longrightarrow>
      (\<Sum>i<m. U i l * U i l') = (if l = l' then 1 else 0)"
  shows "(\<Sum>i<m. (\<Sum>l<k. U i l * S l * V l j)
             * ((\<Sum>l'<k. U i l' * (\<Sum>i'<m. U i' l' * B i')) - B i)) = 0"
proof -
  let ?C = "\<lambda>l. \<Sum>i'<m. U i' l * B i'"
  have "(\<Sum>i<m. (\<Sum>l<k. U i l * S l * V l j) * ((\<Sum>l'<k. U i l' * ?C l') - B i))
        = (\<Sum>i<m. \<Sum>l<k. (S l * V l j) * (U i l * ((\<Sum>l'<k. U i l' * ?C l') - B i)))"
    by (intro sum.cong refl) (simp add: sum_distrib_right mult_ac)
  also have "\<dots> = (\<Sum>l<k. \<Sum>i<m. (S l * V l j) * (U i l * ((\<Sum>l'<k. U i l' * ?C l') - B i)))"
    by (rule sum.swap)
  also have "\<dots> = (\<Sum>l<k. (S l * V l j) * (\<Sum>i<m. U i l * ((\<Sum>l'<k. U i l' * ?C l') - B i)))"
    by (simp add: sum_distrib_left)
  also have "\<dots> = (\<Sum>l<k. (S l * V l j) * 0)"
  proof (intro sum.cong refl)
    fix l assume "l \<in> {..<k}"
    then have l: "l < k" by simp
    have "(\<Sum>i<m. U i l * (\<Sum>l'<k. U i l' * ?C l'))
          = (\<Sum>i<m. \<Sum>l'<k. ?C l' * (U i l * U i l'))"
      by (intro sum.cong refl) (simp add: sum_distrib_left mult_ac)
    also have "\<dots> = (\<Sum>l'<k. \<Sum>i<m. ?C l' * (U i l * U i l'))"
      by (rule sum.swap)
    also have "\<dots> = (\<Sum>l'<k. ?C l' * (\<Sum>i<m. U i l * U i l'))"
      by (simp add: sum_distrib_left)
    also have "\<dots> = (\<Sum>l'<k. ?C l' * (if l = l' then 1 else 0))"
      by (intro sum.cong refl) (simp add: orthU l)
    also have "\<dots> = ?C l"
      by (rule sum_delta_lt [OF l])
    finally have "(\<Sum>i<m. U i l * (\<Sum>l'<k. U i l' * ?C l')) = ?C l" .
    then have "(\<Sum>i<m. U i l * ((\<Sum>l'<k. U i l' * ?C l') - B i)) = 0"
      by (simp add: right_diff_distrib sum_subtractf)
    then show "S l * V l j * (\<Sum>i<m. U i l * ((\<Sum>l'<k. U i l' * ?C l') - B i)) = S l * V l j * 0"
      by simp
  qed
  also have "\<dots> = 0" by simp
  finally show ?thesis .
qed

lemma dot_sum:
  assumes "length xs = length ys"
  shows "dot xs ys = (\<Sum>i<length xs. xs ! i * ys ! i)"
proof -
  have "dot xs ys = (\<Sum>i = 0..<length xs. xs ! i * ys ! i)"
    using assms by (simp add: dot_def sum_list_sum_nth)
  then show ?thesis by (simp add: lessThan_atLeast0)
qed

lemma dot_column:
  assumes "length ys = m"
  shows "dot (map f [0..<m]) ys = (\<Sum>i<m. f i * ys ! i)"
proof -
  have "dot (map f [0..<m]) ys = (\<Sum>i<length (map f [0..<m]). map f [0..<m] ! i * ys ! i)"
    by (rule dot_sum) (simp add: assms)
  also have "\<dots> = (\<Sum>i<m. f i * ys ! i)"
    by (intro sum.cong) simp_all
  finally show ?thesis .
qed

lemma mat_vec_columns:
  assumes "length ys = m"
  shows "mat_vec (map (\<lambda>j. map (f j) [0..<m]) [0..<n]) ys
         = map (\<lambda>j. \<Sum>i<m. f j i * ys ! i) [0..<n]"
  by (simp add: mat_vec_def dot_column [OF assms])

lemma mat_vec_diag:
  assumes "length c = length d"
  shows "mat_vec (diag d) c = map (\<lambda>l. d ! l * c ! l) [0..<length d]"
proof -
  have "\<And>l. l < length d \<Longrightarrow>
      dot (map (\<lambda>j. if l = j then d ! l else 0) [0..<length d]) c = d ! l * c ! l"
  proof -
    fix l assume l: "l < length d"
    have "dot (map (\<lambda>j. if l = j then d ! l else 0) [0..<length d]) c
          = (\<Sum>j<length d. (if l = j then d ! l else 0) * c ! j)"
      by (rule dot_column) (simp add: assms)
    also have "\<dots> = (\<Sum>j<length d. (d ! l * c ! j) * (if l = j then 1 else 0))"
      by (intro sum.cong) simp_all
    also have "\<dots> = d ! l * c ! l"
      by (rule sum_delta_lt [OF l, where f = "\<lambda>j. d ! l * c ! j"])
    finally show "dot (map (\<lambda>j. if l = j then d ! l else 0) [0..<length d]) c = d ! l * c ! l" .
  qed
  then show ?thesis
    by (simp add: mat_vec_def diag_def)
qed

lemma aos_normal_equations:
  assumes svd: "svd (a_values N fl) = (u, s, vh)"
    and shape: "svd_shape (3 * N) (u, s, vh)"
    and dec: "decomposes (a_values N fl) (u, s, vh)"
    and nz: "\<forall>v \<in> set s. v \<noteq> 0"
    and j: "j < 6"
  shows "(\<Sum>i<3 * N. a_values N fl ! i ! j
            * (dot (a_values N fl ! i) (x_values svd N fl) - b_values N fl ! i)) = 0"
proof (cases "N = 0")
  case True
  then show ?thesis by simp
next
  case False
  then have pos: "0 < N" by simp
  let ?m = "3 * N"
  let ?k = "length s"
  let ?U = "\<lambda>i l. u ! i ! l"
  let ?S = "\<lambda>l. s ! l"
  let ?V = "\<lambda>l j. vh ! l ! j"
  let ?B = "\<lambda>i. b_values N fl ! i"
  let ?C = "\<lambda>l. \<Sum>i<?m. ?U i l * ?B i"
  let ?A = "a_values N fl"
  have lu: "length u = ?m" and ru: "\<And>i. i < length u \<Longrightarrow> length (u ! i) = ?k"
    and lv: "length vh = ?k" and rv: "\<And>l. l < length vh \<Longrightarrow> length (vh ! l) = 6"
    using shape by (auto simp: svd_shape_def list_all_length)
  have a_eq: "?A = map (\<lambda>row. mat_vec (transpose vh) (map2 (*) row s)) u"
    and gu: "gram (transpose u) = eye ?k" and gv: "gram vh = eye ?k"
    using dec by (auto simp: decomposes_def)
  have u_ne: "u \<noteq> []" using lu pos by auto
  have row0: "length (?A ! 0) = 6"
    using a_values_nth [of 0 N 0 fl] pos by simp
  have vh_ne: "vh \<noteq> []"
  proof
    assume "vh = []"
    then have "?A ! 0 = []"
      using a_eq lu pos by (simp add: mat_vec_def)
    then show False using row0 by simp
  qed
  then have kpos: "0 < ?k" using lv by auto
  have tu: "transpose u = map (\<lambda>l. map (\<lambda>i. ?U i l) [0..<?m]) [0..<?k]"
    using transpose_rectangle [of u ?k] u_ne ru lu by simp
  have tv: "transpose vh = map (\<lambda>j. map (\<lambda>l. ?V l j) [0..<?k]) [0..<6]"
    using transpose_rectangle [of vh 6] vh_ne rv lv by simp
  have lb: "length (b_values N fl) = ?m" by (rule length_b_values)
  have c: "mat_vec (transpose u) (b_values N fl) = map ?C [0..<?k]"
    unfolding tu by (rule mat_vec_columns [OF lb])
  have w: "mat_vec (diag (map (\<lambda>v. 1 / v) s)) (map ?C [0..<?k])
           = map (\<lambda>l. 1 / ?S l * ?C l) [0..<?k]"
    by (subst mat_vec_diag) simp_all
  have x: "x_values svd N fl = map (\<lambda>j. \<Sum>l<?k. ?V l j * (1 / ?S l * ?C l)) [0..<6]"
  proof -
    have "x_values svd N fl = mat_vec (transpose vh) (map (\<lambda>l. 1 / ?S l * ?C l) [0..<?k])"
      by (simp add: x_values_def svd c w)
    also have "\<dots> = map (\<lambda>j. \<Sum>l<?k. ?V l j * (map (\<lambda>l. 1 / ?S l * ?C l) [0..<?k] ! l)) [0..<6]"
      unfolding tv by (rule mat_vec_columns) simp
    also have "\<dots> = map (\<lambda>j. \<Sum>l<?k. ?V l j * (1 / ?S l * ?C l)) [0..<6]"
      by (intro map_cong refl sum.cong) simp_all
    finally show ?thesis .
  qed
  have a_row: "\<And>i. i < ?m \<Longrightarrow>
      ?A ! i = map (\<lambda>j. \<Sum>l<?k. ?U i l * ?S l * ?V l j) [0..<6]"
  proof -
    fix i assume i: "i < ?m"
    have len: "length (map2 (*) (u ! i) s) = ?k" using ru lu i by simp
    have "?A ! i = mat_vec (transpose vh) (map2 (*) (u ! i) s)"
      using a_eq lu i by simp
    also have "\<dots> = map (\<lambda>j. \<Sum>l<?k. ?V l j * (map2 (*) (u ! i) s ! l)) [0..<6]"
      unfolding tv by (rule mat_vec_columns [OF len])
    also have "\<dots> = map (\<lambda>j. \<Sum>l<?k. ?U i l * ?S l * ?V l j) [0..<6]"
      using ru lu i by (intro map_cong refl sum.cong) (simp_all add: mult_ac)
    finally show "?A ! i = map (\<lambda>j. \<Sum>l<?k. ?U i l * ?S l * ?V l j) [0..<6]" .
  qed
  have orthU: "\<And>l l'. l < ?k \<Longrightarrow> l' < ?k \<Longrightarrow>
      (\<Sum>i<?m. ?U i l * ?U i l') = (if l = l' then 1 else 0)"
  proof -
    fix l l' assume l: "l < ?k" and l': "l' < ?k"
    have "gram (transpose u) ! l ! l' = dot (transpose u ! l) (transpose u ! l')"
      using l l' by (simp add: gram_def tu)
    also have "\<dots> = (\<Sum>i<?m. ?U i l * (map (\<lambda>i. ?U i l') [0..<?m] ! i))"
      using l l' by (simp add: tu dot_column)
    also have "\<dots> = (\<Sum>i<?m. ?U i l * ?U i l')"
      by (intro sum.cong) simp_all
    finally show "(\<Sum>i<?m. ?U i l * ?U i l') = (if l = l' then 1 else 0)"
      using gu l l' by (simp add: eye_def)
  qed
  have orthV: "\<And>l l'. l < ?k \<Longrightarrow> l' < ?k \<Longrightarrow>
      (\<Sum>j<6. ?V l j * ?V l' j) = (if l = l' then 1 else 0)"
  proof -
    fix l l' assume l: "l < ?k" and l': "l' < ?k"
    have "gram vh ! l ! l' = dot (vh ! l) (vh ! l')"
      using l l' lv by (simp add: gram_def)
    also have "\<dots> = (\<Sum>j<length (vh ! l). ?V l j * ?V l' j)"
      using l l' lv rv by (intro dot_sum) simp
    also have "\<dots> = (\<Sum>j<6. ?V l j * ?V l' j)"
      using l lv rv by simp
    finally show "(\<Sum>j<6. ?V l j * ?V l' j) = (if l = l' then 1 else 0)"
      using gv l l' by (simp add: eye_def)
  qed
  have nzS: "\<And>l. l < ?k \<Longrightarrow> ?S l \<noteq> 0"
    using nz by simp
  have ax: "\<And>i. i < ?m \<Longrightarrow> dot (?A ! i) (x_values svd N fl) = (\<Sum>l<?k. ?U i l * ?C l)"
  proof -
    fix i assume i: "i < ?m"
    have "dot (?A ! i) (x_values svd N fl)
          = (\<Sum>j<6. (\<Sum>l<?k. ?U i l * ?S l * ?V l j)
                     * (x_values svd N fl ! j))"
      unfolding a_row [OF i] by (rule dot_column) (simp add: x)
    also have "\<dots> = (\<Sum>j<6. (\<Sum>l<?k. ?U i l * ?S l * ?V l j)
                     * (\<Sum>l'<?k. ?V l' j * (1 / ?S l' * ?C l')))"
      by (intro sum.cong refl) (simp add: x)
    also have "\<dots> = (\<Sum>l<?k. ?U i l * ?C l)"
      by (rule projection_sum [OF orthV nzS])
    finally show "dot (?A ! i) (x_values svd N fl) = (\<Sum>l<?k. ?U i l * ?C l)" .
  qed
  have "(\<Sum>i<?m. ?A ! i ! j * (dot (?A ! i) (x_values svd N fl) - ?B i))
        = (\<Sum>i<?m. (\<Sum>l<?k. ?U i l * ?S l * ?V l j)
             * ((\<Sum>l'<?k. ?U i l' * ?C l') - ?B i))"
  proof (intro sum.cong refl)
    fix i assume "i \<in> {..<?m}"
    then have i: "i < ?m" by simp
    have entry: "?A ! i ! j = (\<Sum>l<?k. ?U i l * ?S l * ?V l j)"
      using j by (simp add: a_row [OF i])
    show "?A ! i ! j * (dot (?A ! i) (x_values svd N fl) - ?B i)
          = (\<Sum>l<?k. ?U i l * ?S l * ?V l j) * ((\<Sum>l'<?k. ?U i l' * ?C l') - ?B i)"
      by (simp only: entry ax [OF i])
  qed
  also have "\<dots> = 0"
    by (rule normal_equations_sum [OF orthU])
  finally show ?thesis .
qed

lemma half_turn_shape:
  "svd_shape (3 * 4) (half_turn_svd (a_values 4 half_turn_poses))"
  by (simp add: svd_shape_def half_turn_svd_def length_a_values ev half_turn_poses_def)


text \<open>
  C3. When the solver succeeds on an array of shape \<open>N \<times> 4 \<times> 4\<close>:
  \<^item> the matrix \<open>A\<close> has \<open>3 N\<close> rows, row \<open>r\<close> of block \<open>i\<close> being row \<open>r\<close> of the rotation of pose
    \<open>i\<close> followed by row \<open>r\<close> of minus the identity, and \<open>b\<close> has the negated translations;
  \<^item> the solution \<open>x\<close> is \<open>V diag(1/s) U\<^sup>T b\<close> for the decomposition of this \<open>A\<close> and this \<open>b\<close>;
  \<^item> when the decomposition is one of \<open>A\<close>, of the right shape and with at most six singular
    values, \<open>x\<close> satisfies the normal equations of \<open>A x = b\<close>, so it solves this system in the
    least-squares sense;
  \<^item> the pointer offset is the first three components of \<open>x\<close>, the pivot location the next
    three, and the residual is the square root of the sum of the squared components of
    \<open>A x - b\<close> divided by \<open>3 N\<close>.
\<close>

theorem aos_solves_system:
  assumes "pivot_calibration_aos svd [N, 4, 4] fl = Inr (pointer_offset, pivot_location, residual_error)"
  shows "length (a_values N fl) = 3 * N \<and> length (b_values N fl) = 3 * N
     \<and> (\<forall>i<N. \<forall>r<3.
           a_values N fl ! (3 * i + r)
             = [elem fl i r 0, elem fl i r 1, elem fl i r 2,
                if r = 0 then - 1 else 0, if r = 1 then - 1 else 0, if r = 2 then - 1 else 0]
           \<and> b_values N fl ! (3 * i + r) = - elem fl i r 3)
     \<and> (\<forall>u s vh. svd (a_values N fl) = (u, s, vh) \<longrightarrow>
           x_values svd N fl
           = mat_vec (transpose vh)
               (mat_vec (diag (map (\<lambda>v. 1 / v) s))
                  (mat_vec (transpose u) (b_values N fl))))
     \<and> (svd_shape (3 * N) (svd (a_values N fl))
          \<and> decomposes (a_values N fl) (svd (a_values N fl))
          \<and> length (fst (snd (svd (a_values N fl)))) \<le> 6
        \<longrightarrow> (\<forall>j<6. (\<Sum>i<3 * N. a_values N fl ! i ! j
                        * (dot (a_values N fl ! i) (x_values svd N fl) - b_values N fl ! i)) = 0))
     \<and> pointer_offset = Vec (take 3 (x_values svd N fl))
     \<and> pivot_location = Vec (take 3 (drop 3 (x_values svd N fl)))
     \<and> residual_error
         = sqrt ((\<Sum>j<3 * N. (dot (a_values N fl ! j) (x_values svd N fl) - b_values N fl ! j)\<^sup>2)
                 / real (3 * N))"
proof -
  obtain u s vh where svd: "svd (a_values N fl) = (u, s, vh)"
    by (cases "svd (a_values N fl)") auto
  have res: "pointer_offset = Vec (take 3 (x_values svd N fl))
     \<and> pivot_location = Vec (take 3 (drop 3 (x_values svd N fl)))
     \<and> residual_error = residual_error_of N fl (x_values svd N fl)"
    using assms by (simp add: aos_cases split: if_splits)
  have rank: "\<not> snd (replace_small_values s 0.01 0.0) < 6"
    using assms svd by (simp add: aos_cases split: if_splits)
  have formula: "\<forall>u s vh. svd (a_values N fl) = (u, s, vh) \<longrightarrow>
           x_values svd N fl
           = mat_vec (transpose vh)
               (mat_vec (diag (map (\<lambda>v. 1 / v) s))
                  (mat_vec (transpose u) (b_values N fl)))"
    by (simp add: x_values_def Let_def)
  have normal: "svd_shape (3 * N) (svd (a_values N fl))
          \<and> decomposes (a_values N fl) (svd (a_values N fl))
          \<and> length (fst (snd (svd (a_values N fl)))) \<le> 6
        \<longrightarrow> (\<forall>j<6. (\<Sum>i<3 * N. a_values N fl ! i ! j
                        * (dot (a_values N fl ! i) (x_values svd N fl) - b_values N fl ! i)) = 0)"
  proof (intro impI allI)
    fix j :: nat
    assume h: "svd_shape (3 * N) (svd (a_values N fl))
          \<and> decomposes (a_values N fl) (svd (a_values N fl))
          \<and> length (fst (snd (svd (a_values N fl)))) \<le> 6"
      and j: "j < 6"
    have len: "length s \<le> 6" using h svd by simp
    have "\<forall>v \<in> set s. \<not> v < 0.01"
      by (rule rank_six_all_kept [OF rank len])
    then have nz: "\<forall>v \<in> set s. v \<noteq> 0" by auto
    have shape: "svd_shape (3 * N) (u, s, vh)" and dec: "decomposes (a_values N fl) (u, s, vh)"
      using h svd by simp_all
    show "(\<Sum>i<3 * N. a_values N fl ! i ! j
              * (dot (a_values N fl ! i) (x_values svd N fl) - b_values N fl ! i)) = 0"
      by (rule aos_normal_equations [where svd = svd and N = N and fl = fl,
            OF svd shape dec nz j])
  qed
  show ?thesis
    using res formula normal
    by (simp add: length_a_values length_b_values a_values_nth b_values_nth residual_as_sum)
qed


theorem aos_solves_system_witness:
  "pivot_calibration_aos half_turn_svd [4, 4, 4] half_turn_poses
     = Inr (Vec [1, 2, 3], Vec [10, 20, 30], 0)
   \<and> a_values 4 half_turn_poses ! 4 = [0, - 1, 0, 0, - 1, 0]
   \<and> b_values 4 half_turn_poses ! 4 = - 22
   \<and> x_values half_turn_svd 4 half_turn_poses
     = mat_vec (transpose (eye 6))
         (mat_vec (diag (map (\<lambda>v. 1 / v) [2, 2, 2, 2, 2, 2]))
            (mat_vec (transpose (map (map (\<lambda>v. v / 2)) (a_values 4 half_turn_poses)))
               (b_values 4 half_turn_poses)))
   \<and> (\<Sum>i<3 * 4. a_values 4 half_turn_poses ! i ! 0
         * (dot (a_values 4 half_turn_poses ! i) (x_values half_turn_svd 4 half_turn_poses)
            - b_values 4 half_turn_poses ! i)) = 0
   \<and> take 3 (x_values half_turn_svd 4 half_turn_poses) = [1, 2, 3]
   \<and> take 3 (drop 3 (x_values half_turn_svd 4 half_turn_poses)) = [10, 20, 30]"
proof -
  note sys = aos_solves_system [OF half_turn_aos]
  from sys have "\<forall>i<4. \<forall>r<3.
      a_values 4 half_turn_poses ! (3 * i + r)
        = [elem half_turn_poses i r 0, elem half_turn_poses i r 1, elem half_turn_poses i r 2,
           if r = 0 then - 1 else 0, if r = 1 then - 1 else 0, if r = 2 then - 1 else 0]
      \<and> b_values 4 half_turn_poses ! (3 * i + r) = - elem half_turn_poses i r 3"
    by blast
  from this [rule_format, of 1 1] have block: "a_values 4 half_turn_poses ! 4 = [0, - 1, 0, 0, - 1, 0]
      \<and> b_values 4 half_turn_poses ! 4 = - 22"
    by (simp add: elem_def half_turn_poses_def)
  from sys have "\<forall>u s vh. half_turn_svd (a_values 4 half_turn_poses) = (u, s, vh) \<longrightarrow>
           x_values half_turn_svd 4 half_turn_poses
           = mat_vec (transpose vh)
               (mat_vec (diag (map (\<lambda>v. 1 / v) s))
                  (mat_vec (transpose u) (b_values 4 half_turn_poses)))"
    by blast
  from this [rule_format, of "map (map (\<lambda>v. v / 2)) (a_values 4 half_turn_poses)"
      "[2, 2, 2, 2, 2, 2]" "eye 6"]
  have formula: "x_values half_turn_svd 4 half_turn_poses
     = mat_vec (transpose (eye 6))
         (mat_vec (diag (map (\<lambda>v. 1 / v) [2, 2, 2, 2, 2, 2]))
            (mat_vec (transpose (map (map (\<lambda>v. v / 2)) (a_values 4 half_turn_poses)))
               (b_values 4 half_turn_poses)))"
    by (simp add: half_turn_svd_def)
  have len: "length (fst (snd (half_turn_svd (a_values 4 half_turn_poses)))) \<le> 6"
    by (simp add: half_turn_svd_def)
  from sys half_turn_shape half_turn_decomposes len
  have "\<forall>j<6. (\<Sum>i<3 * 4. a_values 4 half_turn_poses ! i ! j
         * (dot (a_values 4 half_turn_poses ! i) (x_values half_turn_svd 4 half_turn_poses)
            - b_values 4 half_turn_poses ! i)) = 0"
    by blast
  then have normal: "(\<Sum>i<3 * 4. a_values 4 half_turn_poses ! i ! 0
         * (dot (a_values 4 half_turn_poses ! i) (x_values half_turn_svd 4 half_turn_poses)
            - b_values 4 half_turn_poses ! i)) = 0"
    by simp
  from sys have halves: "take 3 (x_values half_turn_svd 4 half_turn_poses) = [1, 2, 3]
      \<and> take 3 (drop 3 (x_values half_turn_svd 4 half_turn_poses)) = [10, 20, 30]"
    by simp
  show ?thesis
    using half_turn_aos block formula normal halves by blast
qed


end
